theory Spec2Isabelle
  imports Main "HOL-Library.List_Lexorder" "HOL-Library.Char_ord"
begin

section \<open>Python strings\<close>

text \<open>
  A Python \<^verbatim>\<open>str\<close> is modelled as a HOL \<^typ>\<open>string\<close> holding the bytes of its UTF-8
  encoding (a lone surrogate by its three-byte form). UTF-8 is prefix-free, lead bytes are
  never continuation bytes and ASCII bytes occur only as ASCII characters; so equality,
  dictionary lookup, concatenation, \<^verbatim>\<open>replace(" ", "_")\<close>, \<^verbatim>\<open>split\<close> at an ASCII separator
  and the removal of a given character at either end act on the bytes exactly as Python
  acts on the code points.
\<close>

text \<open>A string of ASCII characters: the top bit of every byte is clear.\<close>

definition is_ascii :: "string \<Rightarrow> bool" where
  "is_ascii s = list_all (\<lambda>c. \<not> digit7 c) s"

definition lower_char :: "char \<Rightarrow> char" where
  "lower_char c =
     (case map_of (zip ''ABCDEFGHIJKLMNOPQRSTUVWXYZ'' ''abcdefghijklmnopqrstuvwxyz'') c of
        Some d \<Rightarrow> d
      | None \<Rightarrow> c)"

definition upper_char :: "char \<Rightarrow> char" where
  "upper_char c =
     (case map_of (zip ''abcdefghijklmnopqrstuvwxyz'' ''ABCDEFGHIJKLMNOPQRSTUVWXYZ'') c of
        Some d \<Rightarrow> d
      | None \<Rightarrow> c)"

text \<open>
  \<^verbatim>\<open>s.lower()\<close> and \<^verbatim>\<open>s.upper()\<close>. On a string of ASCII characters Python maps the 26
  letters and nothing else. On any other string the result comes from the case tables of
  Unicode, which are not part of the program: there the functions are parameters,
  \<open>unicode_lower\<close> and \<open>unicode_upper\<close>, about which nothing is assumed.
\<close>

definition lower :: "(string \<Rightarrow> string) \<Rightarrow> string \<Rightarrow> string" where
  "lower unicode_lower s = (if is_ascii s then map lower_char s else unicode_lower s)"

definition upper :: "(string \<Rightarrow> string) \<Rightarrow> string \<Rightarrow> string" where
  "upper unicode_upper s = (if is_ascii s then map upper_char s else unicode_upper s)"

text \<open>\<^verbatim>\<open>s.replace(" ", "_")\<close>: the pattern is one character, so every space is replaced.\<close>

definition replace_space :: "string \<Rightarrow> string" where
  "replace_space s = map (\<lambda>c. if c = CHR '' '' then CHR ''_'' else c) s"

text \<open>
  The characters that \<^verbatim>\<open>str.strip()\<close> removes, each as its UTF-8 encoding: the ASCII
  ones (tab, line feed, vertical tab, form feed, carriage return, 0x1C to 0x1F, space),
  then U+0085, U+00A0, U+1680, U+2000 to U+200A, U+2028, U+2029, U+202F, U+205F, U+3000.
\<close>

definition whitespace :: "string list" where
  "whitespace =
     [[CHR 0x09], [CHR 0x0A], [CHR 0x0B], [CHR 0x0C], [CHR 0x0D],
      [CHR 0x1C], [CHR 0x1D], [CHR 0x1E], [CHR 0x1F], [CHR 0x20],
      [CHR 0xC2, CHR 0x85], [CHR 0xC2, CHR 0xA0], [CHR 0xE1, CHR 0x9A, CHR 0x80],
      [CHR 0xE2, CHR 0x80, CHR 0x80], [CHR 0xE2, CHR 0x80, CHR 0x81],
      [CHR 0xE2, CHR 0x80, CHR 0x82], [CHR 0xE2, CHR 0x80, CHR 0x83],
      [CHR 0xE2, CHR 0x80, CHR 0x84], [CHR 0xE2, CHR 0x80, CHR 0x85],
      [CHR 0xE2, CHR 0x80, CHR 0x86], [CHR 0xE2, CHR 0x80, CHR 0x87],
      [CHR 0xE2, CHR 0x80, CHR 0x88], [CHR 0xE2, CHR 0x80, CHR 0x89],
      [CHR 0xE2, CHR 0x80, CHR 0x8A], [CHR 0xE2, CHR 0x80, CHR 0xA8],
      [CHR 0xE2, CHR 0x80, CHR 0xA9], [CHR 0xE2, CHR 0x80, CHR 0xAF],
      [CHR 0xE2, CHR 0x81, CHR 0x9F], [CHR 0xE3, CHR 0x80, CHR 0x80]]"

text \<open>
  Removing from the front, as long as there is one, a leading occurrence of one of the
  given non-empty words.
\<close>

function strip_prefixes :: "string list \<Rightarrow> string \<Rightarrow> string" where
  "strip_prefixes ws s =
     (case find (\<lambda>w. w \<noteq> [] \<and> take (length w) s = w) ws of
        None \<Rightarrow> s
      | Some w \<Rightarrow> strip_prefixes ws (drop (length w) s))"
  by pat_completeness auto
termination
proof (relation "measure (\<lambda>(ws, s). length s)")
  show "wf (measure (\<lambda>(ws, s). length s))" by simp
next
  fix ws :: "string list" and s w :: string
  assume "find (\<lambda>w. w \<noteq> [] \<and> take (length w) s = w) ws = Some w"
  then have w: "w \<noteq> []" "take (length w) s = w" by (auto simp: find_Some_iff)
  then have "s \<noteq> []" by auto
  with w show "((ws, drop (length w) s), (ws, s)) \<in> measure (\<lambda>(ws, s). length s)"
    by simp
qed

text \<open>\<^verbatim>\<open>s.lstrip()\<close>, \<^verbatim>\<open>s.rstrip()\<close> and \<^verbatim>\<open>s.strip()\<close>.\<close>

definition lstrip :: "string \<Rightarrow> string" where
  "lstrip s = strip_prefixes whitespace s"

definition rstrip :: "string \<Rightarrow> string" where
  "rstrip s = rev (strip_prefixes (map rev whitespace) (rev s))"

definition strip :: "string \<Rightarrow> string" where
  "strip s = rstrip (lstrip s)"

text \<open>
  \<^verbatim>\<open>s.split(sep)\<close> for a non-empty separator: the string is scanned from the left, every
  occurrence of the separator found ends a piece, and scanning goes on after it. The
  result has one piece more than separators found, so it is never empty. (Python raises
  \<^verbatim>\<open>ValueError\<close> for an empty separator; both separators of the source are literals.)
\<close>

function split :: "string \<Rightarrow> string \<Rightarrow> string list" where
  "split sep s =
     (if s = [] \<or> sep = [] then [s]
      else if take (length sep) s = sep then [] # split sep (drop (length sep) s)
      else (case split sep (tl s) of
              [] \<Rightarrow> [[hd s]]
            | p # ps \<Rightarrow> (hd s # p) # ps))"
  by pat_completeness auto
termination
  by (relation "measure (\<lambda>(sep, s). length s)") auto

section \<open>Exceptions\<close>

text \<open>
  A raised Python exception is a value: its class name and its \<^verbatim>\<open>str()\<close>, and whether
  its class derives from \<^verbatim>\<open>Exception\<close> or from \<^verbatim>\<open>BaseException\<close> only, as
  \<^verbatim>\<open>KeyboardInterrupt\<close> and \<^verbatim>\<open>SystemExit\<close> do. A computation that may raise returns
  \<open>py_exception + 'a\<close>, with \<open>Inl\<close> the exception raised.
\<close>

datatype py_exception =
    is_Exception: Exception (exc_class: string) (exc_str: string)
  | BaseException (exc_class: string) (exc_str: string)

section \<open>The record builder\<close>

text \<open>
  \<^verbatim>\<open>clean_category(val)\<close>: an empty value gives the empty string; otherwise element 0 of
  the split at \<^verbatim>\<open>' - '\<close>, stripped. Indexing an empty list would raise \<^verbatim>\<open>IndexError\<close>.
\<close>

definition clean_category :: "string \<Rightarrow> py_exception + string" where
  "clean_category val =
     (if val = [] then Inr ''''
      else (case split '' - '' val of
              [] \<Rightarrow> Inl (Exception ''IndexError'' ''list index out of range'')
            | p # ps \<Rightarrow> Inr (strip p)))"

text \<open>The decimal digits of a natural number, as \<^verbatim>\<open>str(n)\<close> gives them.\<close>

fun str_nat :: "nat \<Rightarrow> string" where
  "str_nat n =
     (if n < 10 then [''0123456789'' ! n]
      else str_nat (n div 10) @ [''0123456789'' ! (n mod 10)])"

text \<open>The format \<^verbatim>\<open>{n:03d}\<close>: the digits, padded with zeros on the left to a width of 3.\<close>

definition format_03d :: "nat \<Rightarrow> string" where
  "format_03d n = replicate (3 - length (str_nat n)) CHR ''0'' @ str_nat n"

text \<open>\<^verbatim>\<open>index_to_id(file_code, idx)\<close>; \<^verbatim>\<open>idx\<close> comes from \<^verbatim>\<open>enumerate\<close>, so it is not negative.\<close>

definition index_to_id :: "string \<Rightarrow> nat \<Rightarrow> string" where
  "index_to_id file_code idx = file_code @ ''_'' @ format_03d (idx + 1)"

text \<open>
  The \<^verbatim>\<open>tags\<close> expression of \<^verbatim>\<open>main\<close>:
  \<^verbatim>\<open>[t.strip() for t in str(row['Search Tags']).split(',')] if row['Search Tags'] else []\<close>.
\<close>

definition tags_of :: "string \<Rightarrow> string list" where
  "tags_of search_tags =
     (if search_tags \<noteq> [] then map strip (split '','' search_tags) else [])"

section \<open>Effects\<close>

text \<open>
  What a run does to the world is a trace of events, in the order they happen. The call
  of the notifier is an event of its own, so that calls can be counted whether or not a
  webhook is configured. \<open>Post url message\<close> is the attempt to send the JSON object
  \<^verbatim>\<open>{"text": message}\<close> to \<open>url\<close> (the \<^verbatim>\<open>Request\<close> and \<^verbatim>\<open>urlopen\<close> of the source);
  \<open>Write path content\<close> is \<^verbatim>\<open>json.dump\<close> into the file opened at \<open>path\<close>. A print, a
  \<^verbatim>\<open>makedirs\<close> or a write that raises leaves no event; a request is an event whether it
  is answered or raises.
\<close>

record item =
  item_id :: string
  item_name :: string
  item_category :: string
  item_country :: string
  item_tags :: "string list"
  item_url :: string
  item_desc :: string

record index_entry =
  entry_country :: string
  entry_code :: string
  entry_flag :: string
  entry_path :: string
  entry_count :: nat

datatype file_content = Records "item list" | Index "index_entry list"

datatype event =
    Print string
  | Lookup string
  | Notify string
  | Post string string
  | Makedirs string
  | Write string file_content

text \<open>A computation: the value returned or the exception raised, and the events so far.\<close>

type_synonym 'a io = "(py_exception + 'a) \<times> event list"

definition return :: "'a \<Rightarrow> 'a io" where
  "return x = (Inr x, [])"

definition emit :: "event \<Rightarrow> unit io" where
  "emit ev = (Inr (), [ev])"

text \<open>Sequencing: an exception in the first part skips the second.\<close>

definition bind :: "'a io \<Rightarrow> ('a \<Rightarrow> 'b io) \<Rightarrow> 'b io" where
  "bind m f =
     (case m of
        (Inl e, t) \<Rightarrow> (Inl e, t)
      | (Inr x, t) \<Rightarrow> (case f x of (r, t') \<Rightarrow> (r, t @ t')))"

text \<open>
  \<^verbatim>\<open>try: m except: h\<close> with a bare \<^verbatim>\<open>except\<close>: the handler takes every exception of the
  body. An exception of the handler itself is not caught.
\<close>

definition try_except :: "'a io \<Rightarrow> (py_exception \<Rightarrow> 'a io) \<Rightarrow> 'a io" where
  "try_except m h =
     (case m of
        (Inl e, t) \<Rightarrow> (case h e of (r, t') \<Rightarrow> (r, t @ t'))
      | (Inr x, t) \<Rightarrow> (Inr x, t))"

text \<open>
  \<^verbatim>\<open>try: m except Exception as e: h\<close>: the handler takes the exceptions whose class derives
  from \<^verbatim>\<open>Exception\<close>; any other exception leaves the statement.
\<close>

definition try_except_Exception :: "'a io \<Rightarrow> (py_exception \<Rightarrow> 'a io) \<Rightarrow> 'a io" where
  "try_except_Exception m h =
     (case m of
        (Inl e, t) \<Rightarrow>
          if is_Exception e then (case h e of (r, t') \<Rightarrow> (r, t @ t'))
          else (Inl e, t)
      | (Inr x, t) \<Rightarrow> (Inr x, t))"

section \<open>The environment\<close>

text \<open>
  The entry of \<^verbatim>\<open>pycountry\<close> that a successful lookup returns; the source reads its
  \<^verbatim>\<open>alpha_2\<close> and its \<^verbatim>\<open>name\<close> (here \<open>pyc_name\<close>).
\<close>

record pycountry =
  alpha_2 :: string
  pyc_name :: string

text \<open>
  The six columns of the sheet. A cell is a string, and after \<^verbatim>\<open>fillna("")\<close> a missing
  cell is the empty string; a column that \<^verbatim>\<open>pandas\<close> reads as numbers is outside the model.
\<close>

record row =
  Country :: string
  Organization_Name :: string
  Category :: string
  Search_Tags :: string
  Official_URL :: string
  Description :: string

text \<open>
  What the program does not contain is a parameter of the model:
  \<^item> \<open>SLACK_WEBHOOK_URL\<close>: the module's global after start-up, \<open>None\<close> when the variable
    is not set;
  \<^item> \<open>countries_lookup\<close>: \<^verbatim>\<open>pycountry.countries.lookup\<close>, which returns an entry or raises;
  \<^item> \<open>urlopen\<close>: the transport, given the URL and the message: the status of the response,
    or the exception that building or sending the request raised (an interrupt included);
  \<^item> \<open>read_csv\<close>: the outcome of \<^verbatim>\<open>pd.read_csv(SHEET_URL)\<close> followed by \<^verbatim>\<open>fillna("")\<close>;
  \<^item> \<open>unicode_lower\<close>, \<open>unicode_upper\<close>: the case functions on strings beyond ASCII;
  \<^item> \<open>stdout_write\<close>: what writing a line to the standard output raises, if anything
    (an encoding that lacks a character of the line, a closed stream);
  \<^item> \<open>makedirs\<close>, \<open>open_write\<close>: what creating the directory and opening a file for
    writing raise, if anything.
\<close>

record env =
  SLACK_WEBHOOK_URL :: "string option"
  countries_lookup :: "string \<Rightarrow> py_exception + pycountry"
  urlopen :: "string \<Rightarrow> string \<Rightarrow> py_exception + nat"
  read_csv :: "py_exception + row list"
  unicode_lower :: "string \<Rightarrow> string"
  unicode_upper :: "string \<Rightarrow> string"
  stdout_write :: "string \<Rightarrow> py_exception option"
  makedirs :: "string \<Rightarrow> py_exception option"
  open_write :: "string \<Rightarrow> py_exception option"

text \<open>\<^verbatim>\<open>print(msg)\<close>, \<^verbatim>\<open>os.makedirs(path, exist_ok=True)\<close>, and \<^verbatim>\<open>json.dump\<close> into \<^verbatim>\<open>open(path, 'w')\<close>.\<close>

definition print :: "env \<Rightarrow> string \<Rightarrow> unit io" where
  "print env msg =
     (case stdout_write env msg of
        None \<Rightarrow> (Inr (), [Print msg])
      | Some e \<Rightarrow> (Inl e, []))"

definition os_makedirs :: "env \<Rightarrow> string \<Rightarrow> unit io" where
  "os_makedirs env path =
     (case makedirs env path of
        None \<Rightarrow> (Inr (), [Makedirs path])
      | Some e \<Rightarrow> (Inl e, []))"

definition json_dump :: "env \<Rightarrow> string \<Rightarrow> file_content \<Rightarrow> unit io" where
  "json_dump env path content =
     (case open_write env path of
        None \<Rightarrow> (Inr (), [Write path content])
      | Some e \<Rightarrow> (Inl e, []))"

text \<open>The symbols of the messages, as UTF-8: U+26A0 U+FE0F, U+2705, U+274C, U+1F680, U+2022.\<close>

definition warning_sign :: string where
  "warning_sign = [CHR 0xE2, CHR 0x9A, CHR 0xA0, CHR 0xEF, CHR 0xB8, CHR 0x8F]"

definition check_mark :: string where
  "check_mark = [CHR 0xE2, CHR 0x9C, CHR 0x85]"

definition cross_mark :: string where
  "cross_mark = [CHR 0xE2, CHR 0x9D, CHR 0x8C]"

definition rocket :: string where
  "rocket = [CHR 0xF0, CHR 0x9F, CHR 0x9A, CHR 0x80]"

definition bullet :: string where
  "bullet = [CHR 0xE2, CHR 0x80, CHR 0xA2]"

section \<open>The notifier\<close>

text \<open>
  \<^verbatim>\<open>send_slack_message(message)\<close>. \<^verbatim>\<open>not SLACK_WEBHOOK_URL\<close> holds for \<^verbatim>\<open>None\<close> and for the
  empty string. The \<^verbatim>\<open>try\<close> block posts and prints by the status; \<^verbatim>\<open>except Exception\<close>
  prints the exception, and that print is outside any \<^verbatim>\<open>try\<close>.
\<close>

definition send_slack_message :: "env \<Rightarrow> string \<Rightarrow> unit io" where
  "send_slack_message env message =
     bind (emit (Notify message)) (\<lambda>_.
       case SLACK_WEBHOOK_URL env of
         None \<Rightarrow>
           print env (warning_sign @ '' SLACK_WEBHOOK_URL not set. Skipping notification.'')
       | Some url \<Rightarrow>
           if url = [] then
             print env (warning_sign @ '' SLACK_WEBHOOK_URL not set. Skipping notification.'')
           else
             try_except_Exception
               (bind (urlopen env url message, [Post url message]) (\<lambda>status.
                  if status = 200 then
                    print env (check_mark @ '' Slack notification sent.'')
                  else
                    print env (warning_sign @ '' Failed to send Slack notification: ''
                               @ str_nat status)))
               (\<lambda>e. print env (warning_sign @ '' Error sending Slack notification: ''
                                @ exc_str e)))"

section \<open>The country resolver\<close>

text \<open>The dictionary \<^verbatim>\<open>exceptions\<close> of \<^verbatim>\<open>get_country_info\<close>.\<close>

definition exceptions :: "string \<rightharpoonup> string \<times> string" where
  "exceptions =
     map_of [(''South Korea'', (''kr'', ''South Korea'')),
             (''United States'', (''us'', ''United States'')),
             (''Global'', (''global'', ''Global'')),
             (''Russia'', (''ru'', ''Russia''))]"

text \<open>The message of the fallback, \<^verbatim>\<open>warning_msg\<close>.\<close>

definition warning_msg :: "string \<Rightarrow> string \<Rightarrow> string" where
  "warning_msg name code =
     warning_sign @ '' Country lookup failed for '' @ [CHR 0x27] @ name @ [CHR 0x27]
       @ ''. Using fallback code: '' @ [CHR 0x27] @ code @ [CHR 0x27]"

text \<open>
  \<^verbatim>\<open>get_country_info(name)\<close>: the table first; else the lookup inside \<^verbatim>\<open>try\<close>; the bare
  \<^verbatim>\<open>except:\<close> takes every exception and derives the code from the name, prints the warning
  and sends it, both outside any \<^verbatim>\<open>try\<close>. The flag is computed from the code last.
\<close>

definition get_country_info :: "env \<Rightarrow> string \<Rightarrow> (string \<times> string \<times> string) io" where
  "get_country_info env name =
     bind
       (case exceptions name of
          Some (code, full_name) \<Rightarrow> return (code, full_name)
        | None \<Rightarrow>
            try_except
              (bind (countries_lookup env name, [Lookup name]) (\<lambda>lookup.
                 return (lower (unicode_lower env) (alpha_2 lookup), pyc_name lookup)))
              (\<lambda>e.
                 let code = replace_space (lower (unicode_lower env) name);
                     full_name = name
                 in bind (print env (warning_msg name code)) (\<lambda>_.
                    bind (send_slack_message env (warning_msg name code)) (\<lambda>_.
                    return (code, full_name)))))
       (\<lambda>(code, full_name).
          if code = ''global'' then return (code, full_name, ''https://flagcdn.com/w40/un.png'')
          else return (code, full_name, ''https://flagcdn.com/w40/'' @ code @ ''.png''))"

section \<open>The run\<close>

text \<open>The dictionary built for one row; \<open>i\<close> is the position of the row in its group.\<close>

definition make_item :: "env \<Rightarrow> string \<Rightarrow> nat \<Rightarrow> row \<Rightarrow> py_exception + item" where
  "make_item env file_code i r =
     (case clean_category (Category r) of
        Inl e \<Rightarrow> Inl e
      | Inr category \<Rightarrow>
          Inr \<lparr>item_id = index_to_id file_code i,
               item_name = Organization_Name r,
               item_category = category,
               item_country = upper (unicode_upper env) file_code,
               item_tags = tags_of (Search_Tags r),
               item_url = Official_URL r,
               item_desc = Description r\<rparr>)"

text \<open>The inner loop: \<^verbatim>\<open>json_data\<close> gets one item per row, numbered from \<open>i\<close>.\<close>

fun build_items :: "env \<Rightarrow> string \<Rightarrow> nat \<Rightarrow> row list \<Rightarrow> py_exception + item list" where
  "build_items env file_code i [] = Inr []"
| "build_items env file_code i (r # rs) =
     (case make_item env file_code i r of
        Inl e \<Rightarrow> Inl e
      | Inr it \<Rightarrow>
          (case build_items env file_code (Suc i) rs of
             Inl e \<Rightarrow> Inl e
           | Inr its \<Rightarrow> Inr (it # its)))"

text \<open>
  \<^verbatim>\<open>df.groupby('Country')\<close>: one group per distinct value of the column, the keys in
  ascending order, the rows of a group in the order of the sheet.
\<close>

definition groupby_Country :: "row list \<Rightarrow> (string \<times> row list) list" where
  "groupby_Country df =
     map (\<lambda>k. (k, filter (\<lambda>r. Country r = k) df)) (sort (remdups (map Country df)))"

text \<open>The body of the outer loop: resolve, build, write the file, return the index entry.\<close>

definition process_group :: "env \<Rightarrow> string \<times> row list \<Rightarrow> index_entry io" where
  "process_group env g =
     (case g of (country_name, group_rows) \<Rightarrow>
        bind (get_country_info env country_name) (\<lambda>(file_code, full_name, flag_url).
          let file_name = file_code @ ''.json'';
              relative_path = ''contributors/'' @ file_name
          in bind (build_items env file_code 0 group_rows, []) (\<lambda>json_data.
             bind (json_dump env relative_path (Records json_data)) (\<lambda>_.
             bind (print env (check_mark @ '' Saved '' @ relative_path @ '' (''
                              @ str_nat (length json_data) @ '' items)'')) (\<lambda>_.
             return \<lparr>entry_country = full_name,
                     entry_code = file_code,
                     entry_flag = flag_url,
                     entry_path = relative_path,
                     entry_count = length json_data\<rparr>)))))"

fun process_groups :: "env \<Rightarrow> (string \<times> row list) list \<Rightarrow> index_entry list io" where
  "process_groups env [] = return []"
| "process_groups env (g # gs) =
     bind (process_group env g) (\<lambda>entry.
     bind (process_groups env gs) (\<lambda>entries.
     return (entry # entries)))"

text \<open>The summary sent at the end of the run.\<close>

definition summary_msg :: "index_entry list \<Rightarrow> string" where
  "summary_msg index_data =
     rocket @ '' *HabitFund Data Update Complete*\<newline>''
     @ bullet @ '' Countries: '' @ str_nat (length index_data) @ ''\<newline>''
     @ bullet @ '' Total Contributors: '' @ str_nat (sum_list (map entry_count index_data))
     @ ''\<newline>''
     @ bullet @ '' Index File: `contributors/index.json` created successfully.''"

text \<open>
  \<^verbatim>\<open>main()\<close>: an \<^verbatim>\<open>Exception\<close> raised while loading the sheet is printed and ends the run;
  otherwise the directory is made, the groups are processed, the index is written and
  the summary is sent. Nothing of this second part is inside a \<^verbatim>\<open>try\<close>.
\<close>

definition main :: "env \<Rightarrow> unit io" where
  "main env =
     (case read_csv env of
        Inl e \<Rightarrow>
          if is_Exception e then
            print env (cross_mark @ '' Error loading sheet: '' @ exc_str e)
          else (Inl e, [])
      | Inr df \<Rightarrow>
          bind (os_makedirs env ''contributors'') (\<lambda>_.
          bind (process_groups env (groupby_Country df)) (\<lambda>index_data.
          bind (json_dump env ''contributors/index.json'' (Index index_data)) (\<lambda>_.
          bind (print env (''\<newline>'' @ rocket
                           @ '' All Done! Index file created at contributors/index.json'')) (\<lambda>_.
          send_slack_message env (summary_msg index_data))))))"

section \<open>Observations of a trace\<close>

text \<open>The messages the notifier was called with, in order.\<close>

fun notify_calls :: "event list \<Rightarrow> string list" where
  "notify_calls [] = []"
| "notify_calls (Notify m # t) = m # notify_calls t"
| "notify_calls (ev # t) = notify_calls t"

text \<open>The requests attempted, as pairs of URL and message.\<close>

fun posts :: "event list \<Rightarrow> (string \<times> string) list" where
  "posts [] = []"
| "posts (Post url m # t) = (url, m) # posts t"
| "posts (ev # t) = posts t"

text \<open>The calls of the standards lookup.\<close>

fun lookups :: "event list \<Rightarrow> string list" where
  "lookups [] = []"
| "lookups (Lookup n # t) = n # lookups t"
| "lookups (ev # t) = lookups t"

text \<open>The files written, in order, each with its content.\<close>

fun writes :: "event list \<Rightarrow> (string \<times> file_content) list" where
  "writes [] = []"
| "writes (Write p c # t) = (p, c) # writes t"
| "writes (ev # t) = writes t"

text \<open>The per-country record lists written, and the indexes written.\<close>

fun records_written :: "event list \<Rightarrow> (string \<times> item list) list" where
  "records_written [] = []"
| "records_written (Write p (Records its) # t) = (p, its) # records_written t"
| "records_written (ev # t) = records_written t"

fun index_written :: "event list \<Rightarrow> index_entry list list" where
  "index_written [] = []"
| "index_written (Write p (Index es) # t) = es # index_written t"
| "index_written (ev # t) = index_written t"

section \<open>Notions of the specification\<close>

text \<open>Pieces joined by a separator: what splitting undoes.\<close>

fun join :: "string \<Rightarrow> string list \<Rightarrow> string" where
  "join sep [] = []"
| "join sep [p] = p"
| "join sep (p # q # ps) = p @ sep @ join sep (q # ps)"

text \<open>The decimal digit character of a number below ten.\<close>

definition digit :: "nat \<Rightarrow> char" where
  "digit d = ''0123456789'' ! d"

text \<open>The flag rule, step 4 of the resolver in the specification.\<close>

definition flag_of :: "string \<Rightarrow> string" where
  "flag_of code = (if code = ''global'' then ''https://flagcdn.com/w40/un.png''
                   else ''https://flagcdn.com/w40/'' @ code @ ''.png'')"

text \<open>
  Two conditions on the environment: every line can be printed; and whatever the
  transport raises derives from \<^verbatim>\<open>Exception\<close> (no interrupt, no exit).
\<close>

definition prints_succeed :: "env \<Rightarrow> bool" where
  "prints_succeed env \<longleftrightarrow> (\<forall>msg. stdout_write env msg = None)"

definition transport_raises_Exception_only :: "env \<Rightarrow> bool" where
  "transport_raises_Exception_only env \<longleftrightarrow>
     (\<forall>url message e. urlopen env url message = Inl e \<longrightarrow> is_Exception e)"


section \<open>Sample environments\<close>

text \<open>
  A lookup that knows three entries by name or code without regard to case, as
  \<^verbatim>\<open>pycountry\<close> does, and raises \<^verbatim>\<open>LookupError\<close> for every other name.
\<close>

definition sample_lookup :: "string \<Rightarrow> py_exception + pycountry" where
  "sample_lookup name =
     (if map lower_char name \<in> set [''us'', ''usa'', ''united states''] then
        Inr \<lparr>alpha_2 = ''US'', pyc_name = ''United States''\<rparr>
      else if map lower_char name \<in> set [''ru'', ''rus'', ''russian federation''] then
        Inr \<lparr>alpha_2 = ''RU'', pyc_name = ''Russian Federation''\<rparr>
      else if map lower_char name \<in> set [''fr'', ''fra'', ''france''] then
        Inr \<lparr>alpha_2 = ''FR'', pyc_name = ''France''\<rparr>
      else Inl (Exception ''LookupError''
                  (''Could not find a record for '' @ map lower_char name)))"

text \<open>
  An environment in which nothing fails but the transport: no webhook, a transport that
  is unreachable, an empty sheet, a UTF-8 standard output, a writable directory. Its case
  functions beyond ASCII map the ASCII letters and leave every other byte, which is
  right for strings whose characters beyond ASCII have no case.
\<close>

definition sample_env :: env where
  "sample_env =
     \<lparr>SLACK_WEBHOOK_URL = None,
      countries_lookup = sample_lookup,
      urlopen = (\<lambda>url message. Inl (Exception ''URLError'' ''unreachable'')),
      read_csv = Inr [],
      unicode_lower = map lower_char,
      unicode_upper = map upper_char,
      stdout_write = (\<lambda>msg. None),
      makedirs = (\<lambda>path. None),
      open_write = (\<lambda>path. None)\<rparr>"

text \<open>A sample row and a sample sheet of three rows in two groups.\<close>

definition sample_row :: "string \<Rightarrow> string \<Rightarrow> string \<Rightarrow> row" where
  "sample_row country category search_tags =
     \<lparr>Country = country, Organization_Name = ''Org'', Category = category,
      Search_Tags = search_tags, Official_URL = ''https://example.org'',
      Description = ''''\<rparr>"

definition sample_sheet :: "row list" where
  "sample_sheet =
     [sample_row ''Wonderland'' '''' '''',
      sample_row ''South Korea'' ''tech - software'' ''a, b,c'',
      sample_row ''Wonderland'' ''arts'' ''a,,b'']"

text \<open>The sample sheet, a webhook, and a transport that answers with a given status.\<close>

definition hooked_env :: "nat \<Rightarrow> env" where
  "hooked_env status =
     sample_env
       \<lparr>SLACK_WEBHOOK_URL := Some ''https://hooks.slack.example/T0'',
        urlopen := (\<lambda>url message. Inr status),
        read_csv := Inr sample_sheet\<rparr>"




text \<open>
  A name with a cased letter beyond ASCII, U+00C9 followed by \<^verbatim>\<open>IRE\<close>, what Python's
  \<^verbatim>\<open>lower\<close> makes of it, U+00E9 followed by \<^verbatim>\<open>ire\<close>, and the sample environment with
  a \<open>unicode_lower\<close> that does so.
\<close>

definition eire_upper :: string where
  "eire_upper = [CHR 0xC3, CHR 0x89] @ ''IRE''"

definition eire_lower :: string where
  "eire_lower = [CHR 0xC3, CHR 0xA9] @ ''ire''"

definition latin_env :: env where
  "latin_env =
     sample_env\<lparr>unicode_lower :=
                  (\<lambda>s. if s = eire_upper then eire_lower else map lower_char s)\<rparr>"


text \<open>Two whitespace characters beyond ASCII, U+00A0 and U+3000.\<close>

definition nbsp :: string where
  "nbsp = [CHR 0xC2, CHR 0xA0]"

definition ideographic_space :: string where
  "ideographic_space = [CHR 0xE3, CHR 0x80, CHR 0x80]"

section \<open>Record identifiers\<close>

lemma digit_inj: "a < 10 \<Longrightarrow> b < 10 \<Longrightarrow> digit a = digit b \<Longrightarrow> a = b"
proof -
  assume a: "a < 10" and b: "b < 10" and e: "digit a = digit b"
  have d: "distinct ''0123456789''" by simp
  have "length ''0123456789'' = 10" by simp
  with a b e d show "a = b"
    unfolding digit_def by (metis nth_eq_iff_index_eq)
qed

lemma str_nat_1: "n < 10 \<Longrightarrow> str_nat n = [digit n]"
  by (simp add: digit_def)

lemma str_nat_2: "10 \<le> n \<Longrightarrow> n < 100 \<Longrightarrow> str_nat n = [digit (n div 10), digit (n mod 10)]"
proof -
  assume a: "10 \<le> n" and b: "n < 100"
  then have "n div 10 < 10" by simp
  then have "str_nat (n div 10) = [digit (n div 10)]" by (rule str_nat_1)
  moreover have "str_nat n = str_nat (n div 10) @ [''0123456789'' ! (n mod 10)]"
    using a by (subst str_nat.simps) simp
  ultimately show ?thesis by (simp add: digit_def)
qed

lemma str_nat_3: "100 \<le> n \<Longrightarrow> n < 1000 \<Longrightarrow>
  str_nat n = [digit (n div 100), digit (n div 10 mod 10), digit (n mod 10)]"
proof -
  assume a: "100 \<le> n" and b: "n < 1000"
  then have "10 \<le> n div 10" "n div 10 < 100" by simp_all
  then have "str_nat (n div 10) = [digit (n div 10 div 10), digit (n div 10 mod 10)]"
    by (rule str_nat_2)
  moreover have "str_nat n = str_nat (n div 10) @ [''0123456789'' ! (n mod 10)]"
    using a by (subst str_nat.simps) simp
  moreover have "n div 10 div 10 = n div 100" by (simp add: div_mult2_eq)
  ultimately show ?thesis by (simp add: digit_def)
qed

lemma format_03d_digits: "n < 1000 \<Longrightarrow>
  format_03d n = [digit (n div 100), digit (n div 10 mod 10), digit (n mod 10)]"
proof -
  assume b: "n < 1000"
  consider "n < 10" | "10 \<le> n" "n < 100" | "100 \<le> n" by linarith
  then show ?thesis
  proof cases
    case 1
    then show ?thesis by (simp add: format_03d_def str_nat_1 digit_def numeral_2_eq_2 del: str_nat.simps)
  next
    case 2
    then have "n div 100 = 0" by simp
    with 2 show ?thesis
      by (simp add: format_03d_def str_nat_2 del: str_nat.simps) (simp add: digit_def)
  next
    case 3
    with b show ?thesis by (simp add: format_03d_def str_nat_3 del: str_nat.simps)
  qed
qed

lemma format_03d_inj: "m < 1000 \<Longrightarrow> n < 1000 \<Longrightarrow> format_03d m = format_03d n \<Longrightarrow> m = n"
proof -
  assume m: "m < 1000" and n: "n < 1000" and e: "format_03d m = format_03d n"
  from e m n have "digit (m div 100) = digit (n div 100)"
    "digit (m div 10 mod 10) = digit (n div 10 mod 10)"
    "digit (m mod 10) = digit (n mod 10)"
    by (simp_all add: format_03d_digits)
  moreover have "m div 100 < 10" "n div 100 < 10" using m n by simp_all
  ultimately have "m div 100 = n div 100" "m div 10 mod 10 = n div 10 mod 10" "m mod 10 = n mod 10"
    by (auto intro: digit_inj)
  moreover have "m div 10 div 10 = m div 100" "n div 10 div 10 = n div 100"
    by (simp_all add: div_mult2_eq)
  ultimately have "m div 10 = n div 10"
    by (metis div_mult_mod_eq)
  with \<open>m mod 10 = n mod 10\<close> show "m = n"
    by (metis div_mult_mod_eq)
qed

text \<open>
  Claim C5. Within one country group, two distinct row indices below 999 get distinct
  record ids, and the id of index \<open>i\<close> is the code, an underscore and the three decimal
  digits of \<open>i + 1\<close> (hundreds, tens, units), so group \<^verbatim>\<open>kr\<close> gives \<^verbatim>\<open>kr_001\<close> at index 0
  and \<^verbatim>\<open>kr_010\<close> at index 9.
\<close>

theorem index_to_id_injective_padded:
  "(i < 999 \<longrightarrow>
      index_to_id code i =
        code @ ''_'' @ [digit ((i + 1) div 100), digit ((i + 1) div 10 mod 10), digit ((i + 1) mod 10)])
   \<and> (i < 999 \<and> j < 999 \<and> i \<noteq> j \<longrightarrow> index_to_id code i \<noteq> index_to_id code j)
   \<and> index_to_id ''kr'' 0 = ''kr_001''
   \<and> index_to_id ''kr'' 9 = ''kr_010''"
proof -
  have pad: "i < 999 \<longrightarrow>
      index_to_id code i =
        code @ ''_'' @ [digit ((i + 1) div 100), digit ((i + 1) div 10 mod 10), digit ((i + 1) mod 10)]"
    by (simp add: index_to_id_def format_03d_digits del: str_nat.simps)
  have inj: "i < 999 \<and> j < 999 \<and> i \<noteq> j \<longrightarrow> index_to_id code i \<noteq> index_to_id code j"
  proof (intro impI notI)
    assume h: "i < 999 \<and> j < 999 \<and> i \<noteq> j" and e: "index_to_id code i = index_to_id code j"
    from e have "format_03d (i + 1) = format_03d (j + 1)" by (simp add: index_to_id_def)
    moreover from h have "i + 1 < 1000" "j + 1 < 1000" by simp_all
    ultimately have "i + 1 = j + 1" by (metis format_03d_inj)
    with h show False by simp
  qed
  have ex1: "index_to_id ''kr'' 0 = ''kr_001''"
    by (simp add: index_to_id_def format_03d_def numeral_2_eq_2)
  have ex2: "index_to_id ''kr'' 9 = ''kr_010''"
    by (simp add: index_to_id_def format_03d_def)
  from pad inj ex1 ex2 show ?thesis by blast
qed

text \<open>The theorem at indices 41 and 122 of group \<^verbatim>\<open>us\<close>.\<close>

theorem index_to_id_injective_padded_witness:
  "(41::nat) < 999 \<and> (122::nat) < 999 \<and> (41::nat) \<noteq> 122
   \<and> index_to_id ''us'' 41 = ''us_042''
   \<and> index_to_id ''us'' 41 \<noteq> index_to_id ''us'' 122"
  using index_to_id_injective_padded [of 41 "''us''" 122]
  by (simp add: digit_def index_to_id_def format_03d_def)

declare split.simps [simp del]
declare str_nat.simps [simp del]

lemmas io_defs = bind_def return_def emit_def try_except_def

section \<open>Traces\<close>

lemma notify_calls_append: "notify_calls (a @ b) = notify_calls a @ notify_calls b"
  by (induction a rule: notify_calls.induct) simp_all

lemma posts_append: "posts (a @ b) = posts a @ posts b"
  by (induction a rule: posts.induct) simp_all

lemma lookups_append: "lookups (a @ b) = lookups a @ lookups b"
  by (induction a rule: lookups.induct) simp_all

lemma writes_append: "writes (a @ b) = writes a @ writes b"
  by (induction a rule: writes.induct) simp_all

lemma records_written_append: "records_written (a @ b) = records_written a @ records_written b"
  by (induction a rule: records_written.induct) simp_all

lemma index_written_append: "index_written (a @ b) = index_written a @ index_written b"
  by (induction a rule: index_written.induct) simp_all
declare strip_prefixes.simps [simp del]

section \<open>The notifier, case by case\<close>

lemmas act_defs = print_def os_makedirs_def json_dump_def

lemma print_ok: "stdout_write env msg = None \<Longrightarrow> print env msg = (Inr (), [Print msg])"
  by (simp add: print_def)

lemma print_fails: "stdout_write env msg = Some e \<Longrightarrow> print env msg = (Inl e, [])"
  by (simp add: print_def)

lemma print_obs:
  "notify_calls (snd (print env msg)) = []"
  "lookups (snd (print env msg)) = []"
  "writes (snd (print env msg)) = []"
  "posts (snd (print env msg)) = []"
  by (simp_all add: print_def split: option.splits)

lemma send_unset:
  "SLACK_WEBHOOK_URL env = None \<or> SLACK_WEBHOOK_URL env = Some [] \<Longrightarrow>
   send_slack_message env m =
     bind (emit (Notify m))
       (\<lambda>_. print env (warning_sign @ '' SLACK_WEBHOOK_URL not set. Skipping notification.''))"
  by (auto simp: send_slack_message_def)

lemma send_raised:
  "SLACK_WEBHOOK_URL env = Some url \<Longrightarrow> url \<noteq> [] \<Longrightarrow> urlopen env url m = Inl e \<Longrightarrow>
   send_slack_message env m =
     (if is_Exception e then
        bind (Inr (), [Notify m, Post url m])
          (\<lambda>_. print env (warning_sign @ '' Error sending Slack notification: '' @ exc_str e))
      else (Inl e, [Notify m, Post url m]))"
  by (simp add: send_slack_message_def io_defs try_except_Exception_def split: prod.splits)

lemma send_status:
  "SLACK_WEBHOOK_URL env = Some url \<Longrightarrow> url \<noteq> [] \<Longrightarrow> urlopen env url m = Inr status \<Longrightarrow>
   prints_succeed env \<Longrightarrow>
   send_slack_message env m =
     (Inr (), [Notify m, Post url m,
               Print (if status = 200 then check_mark @ '' Slack notification sent.''
                      else warning_sign @ '' Failed to send Slack notification: ''
                           @ str_nat status)])"
  by (simp add: send_slack_message_def io_defs try_except_Exception_def prints_succeed_def
      print_def)

lemma send_shape:
  "\<exists>r t. send_slack_message env m = (r, Notify m # t) \<and> notify_calls t = []
       \<and> writes t = [] \<and> lookups t = []"
  by (auto simp: send_slack_message_def io_defs try_except_Exception_def print_def
      split: option.splits sum.splits prod.splits)

lemma send_returns:
  assumes "prints_succeed env" and "transport_raises_Exception_only env"
  shows "\<exists>t. send_slack_message env m = (Inr (), Notify m # t) \<and> notify_calls t = []
       \<and> writes t = [] \<and> lookups t = []"
proof -
  from assms(1) have p: "\<And>msg. print env msg = (Inr (), [Print msg])"
    by (simp add: prints_succeed_def print_def)
  show ?thesis
  proof (cases "SLACK_WEBHOOK_URL env = None \<or> SLACK_WEBHOOK_URL env = Some []")
    case True
    then show ?thesis by (simp add: send_unset p io_defs)
  next
    case False
    then obtain url where u: "SLACK_WEBHOOK_URL env = Some url" "url \<noteq> []" by auto
    show ?thesis
    proof (cases "urlopen env url m")
      case (Inl e)
      with assms(2) have "is_Exception e"
        by (auto simp: transport_raises_Exception_only_def)
      with u Inl show ?thesis by (simp add: send_raised p io_defs)
    next
      case (Inr status)
      with u assms(1) show ?thesis by (simp add: send_status)
    qed
  qed
qed

section \<open>The resolver, branch by branch\<close>

lemma gci_table:
  "exceptions name = Some (c, f) \<Longrightarrow>
   get_country_info env name = (Inr (c, f, flag_of c), [])"
  by (simp add: get_country_info_def io_defs flag_of_def)

lemma gci_lookup:
  "exceptions name = None \<Longrightarrow> countries_lookup env name = Inr co \<Longrightarrow>
   get_country_info env name =
     (Inr (lower (unicode_lower env) (alpha_2 co), pyc_name co,
           flag_of (lower (unicode_lower env) (alpha_2 co))), [Lookup name])"
  by (simp add: get_country_info_def io_defs flag_of_def)

lemma gci_fallback_print_fails:
  "exceptions name = None \<Longrightarrow> countries_lookup env name = Inl e \<Longrightarrow>
   stdout_write env (warning_msg name (replace_space (lower (unicode_lower env) name))) = Some e' \<Longrightarrow>
   get_country_info env name = (Inl e', [Lookup name])"
  by (simp add: get_country_info_def io_defs Let_def print_def)

lemma gci_fallback_send:
  "exceptions name = None \<Longrightarrow> countries_lookup env name = Inl e \<Longrightarrow>
   stdout_write env (warning_msg name (replace_space (lower (unicode_lower env) name))) = None \<Longrightarrow>
   send_slack_message env (warning_msg name (replace_space (lower (unicode_lower env) name)))
     = (r, t) \<Longrightarrow>
   get_country_info env name =
     ((case r of
         Inl e' \<Rightarrow> Inl e'
       | Inr u \<Rightarrow> Inr (replace_space (lower (unicode_lower env) name), name,
                        flag_of (replace_space (lower (unicode_lower env) name)))),
      [Lookup name, Print (warning_msg name (replace_space (lower (unicode_lower env) name)))] @ t)"
  by (simp add: get_country_info_def io_defs Let_def print_def flag_of_def split: sum.splits)

lemma gci_fallback_partial:
  assumes "exceptions name = None" and "countries_lookup env name = Inl e"
  shows "\<exists>r t. get_country_info env name = (r, t) \<and> lookups t = [name] \<and> writes t = []
      \<and> length (notify_calls t) \<le> 1
      \<and> (\<forall>c f u. r = Inr (c, f, u) \<longrightarrow>
            c = replace_space (lower (unicode_lower env) name) \<and> f = name \<and> u = flag_of c
            \<and> notify_calls t = [warning_msg name (replace_space (lower (unicode_lower env) name))])"
proof -
  let ?code = "replace_space (lower (unicode_lower env) name)"
  show ?thesis
  proof (cases "stdout_write env (warning_msg name ?code)")
    case (Some e')
    with assms show ?thesis by (simp add: gci_fallback_print_fails)
  next
    case None
    obtain r t where s: "send_slack_message env (warning_msg name ?code)
        = (r, Notify (warning_msg name ?code) # t)"
      "notify_calls t = []" "writes t = []" "lookups t = []"
      using send_shape by blast
    from assms None s(1) have "get_country_info env name =
       ((case r of Inl e' \<Rightarrow> Inl e' | Inr u \<Rightarrow> Inr (?code, name, flag_of ?code)),
        [Lookup name, Print (warning_msg name ?code)] @ Notify (warning_msg name ?code) # t)"
      by (rule gci_fallback_send)
    with s(2-4) show ?thesis by (cases r) simp_all
  qed
qed

lemma gci_fallback_returns:
  assumes "exceptions name = None" and "countries_lookup env name = Inl e"
    and "prints_succeed env" and "transport_raises_Exception_only env"
  shows "\<exists>t. get_country_info env name =
           (Inr (replace_space (lower (unicode_lower env) name), name,
                 flag_of (replace_space (lower (unicode_lower env) name))), t)
      \<and> lookups t = [name] \<and> writes t = []
      \<and> notify_calls t = [warning_msg name (replace_space (lower (unicode_lower env) name))]"
proof -
  let ?code = "replace_space (lower (unicode_lower env) name)"
  from assms(3) have p: "stdout_write env (warning_msg name ?code) = None"
    by (simp add: prints_succeed_def)
  obtain t where s: "send_slack_message env (warning_msg name ?code)
        = (Inr (), Notify (warning_msg name ?code) # t)"
      "notify_calls t = []" "writes t = []" "lookups t = []"
    using send_returns [OF assms(3,4)] by blast
  from assms(1,2) p s(1) have "get_country_info env name =
       ((case Inr () of Inl e' \<Rightarrow> Inl e' | Inr u \<Rightarrow> Inr (?code, name, flag_of ?code)),
        [Lookup name, Print (warning_msg name ?code)] @ Notify (warning_msg name ?code) # t)"
    by (rule gci_fallback_send)
  with s(2-4) show ?thesis by simp
qed

lemma gci_shape:
  "\<exists>r t. get_country_info env name = (r, t) \<and> writes t = []
     \<and> (\<forall>c f u. r = Inr (c, f, u) \<longrightarrow> u = flag_of c)"
proof (cases "exceptions name")
  case (Some p)
  then show ?thesis by (cases p) (simp add: gci_table)
next
  case None
  show ?thesis
  proof (cases "countries_lookup env name")
    case (Inl e)
    with None gci_fallback_partial [of name env e] show ?thesis by blast
  next
    case (Inr co)
    with None show ?thesis by (simp add: gci_lookup)
  qed
qed

lemma gci_returns:
  assumes "prints_succeed env" and "transport_raises_Exception_only env"
  shows "\<exists>c f t. get_country_info env name = (Inr (c, f, flag_of c), t) \<and> writes t = []"
proof (cases "exceptions name")
  case (Some p)
  then show ?thesis by (cases p) (simp add: gci_table)
next
  case None
  show ?thesis
  proof (cases "countries_lookup env name")
    case (Inl e)
    with None gci_fallback_returns [OF _ _ assms, of name e] show ?thesis by blast
  next
    case (Inr co)
    with None show ?thesis by (simp add: gci_lookup)
  qed
qed

section \<open>The resolver: claims\<close>

lemma sample_env_ok:
  "prints_succeed sample_env" "transport_raises_Exception_only sample_env"
  "prints_succeed latin_env" "transport_raises_Exception_only latin_env"
  "prints_succeed (hooked_env status)" "transport_raises_Exception_only (hooked_env status)"
  by (simp_all add: prints_succeed_def transport_raises_Exception_only_def sample_env_def
      latin_env_def hooked_env_def)

lemma sample_lookup_values:
  "sample_lookup ''United States'' = Inr \<lparr>alpha_2 = ''US'', pyc_name = ''United States''\<rparr>"
  "sample_lookup ''USA'' = Inr \<lparr>alpha_2 = ''US'', pyc_name = ''United States''\<rparr>"
  "sample_lookup ''russia'' = Inl (Exception ''LookupError'' ''Could not find a record for russia'')"
  "sample_lookup ''UN'' = Inl (Exception ''LookupError'' ''Could not find a record for un'')"
  "sample_lookup ''Wonder Land''
     = Inl (Exception ''LookupError'' ''Could not find a record for wonder land'')"
  by (simp_all add: sample_lookup_def lower_char_def)

lemma lower_ascii_values:
  "lower ul ''US'' = ''us''" "lower ul ''UN'' = ''un''" "lower ul ''russia'' = ''russia''"
  "lower ul ''Wonder Land'' = ''wonder land''"
  by (simp_all add: lower_def is_ascii_def lower_char_def)

text \<open>
  Claim C1. The resolver decides in three ordered steps. A name that is a key of the
  exception table gets the table's code and full name, and nothing else happens: the
  trace is empty, so the standards lookup is not consulted, whatever it would answer.
  Any other name is looked up; on success the code is the entry's alpha-2 code in lower
  case and the full name is the entry's name. If the lookup raises, the fallback applies:
  the lookup was called once, whatever is returned is the fallback code and the name, and
  they are returned whenever printing succeeds and the transport raises nothing outside
  \<^verbatim>\<open>Exception\<close>. The keys are the four literal strings, compared as whole strings.
\<close>

theorem get_country_info_precedence:
  "(exceptions name = Some (c, f) \<longrightarrow>
      (\<exists>u. get_country_info env name = (Inr (c, f, u), [])))
   \<and> (exceptions name = None \<and> countries_lookup env name = Inr co \<longrightarrow>
      (\<exists>u. get_country_info env name =
             (Inr (lower (unicode_lower env) (alpha_2 co), pyc_name co, u), [Lookup name])))
   \<and> (exceptions name = None \<and> countries_lookup env name = Inl e \<longrightarrow>
      lookups (snd (get_country_info env name)) = [name]
      \<and> (\<forall>c' f' u. fst (get_country_info env name) = Inr (c', f', u) \<longrightarrow>
             c' = replace_space (lower (unicode_lower env) name) \<and> f' = name)
      \<and> (prints_succeed env \<and> transport_raises_Exception_only env \<longrightarrow>
           (\<exists>u t. get_country_info env name
                    = (Inr (replace_space (lower (unicode_lower env) name), name, u), t)
                  \<and> lookups t = [name])))
   \<and> dom exceptions = {''South Korea'', ''United States'', ''Global'', ''Russia''}
   \<and> exceptions ''South Korea'' = Some (''kr'', ''South Korea'')
   \<and> exceptions ''United States'' = Some (''us'', ''United States'')
   \<and> exceptions ''Global'' = Some (''global'', ''Global'')
   \<and> exceptions ''Russia'' = Some (''ru'', ''Russia'')"
proof -
  have table: "exceptions name = Some (c, f) \<longrightarrow>
      (\<exists>u. get_country_info env name = (Inr (c, f, u), []))"
    by (simp add: gci_table)
  have found: "exceptions name = None \<and> countries_lookup env name = Inr co \<longrightarrow>
      (\<exists>u. get_country_info env name =
             (Inr (lower (unicode_lower env) (alpha_2 co), pyc_name co, u), [Lookup name]))"
    by (simp add: gci_lookup)
  have fallback: "exceptions name = None \<and> countries_lookup env name = Inl e \<longrightarrow>
      lookups (snd (get_country_info env name)) = [name]
      \<and> (\<forall>c' f' u. fst (get_country_info env name) = Inr (c', f', u) \<longrightarrow>
             c' = replace_space (lower (unicode_lower env) name) \<and> f' = name)
      \<and> (prints_succeed env \<and> transport_raises_Exception_only env \<longrightarrow>
           (\<exists>u t. get_country_info env name
                    = (Inr (replace_space (lower (unicode_lower env) name), name, u), t)
                  \<and> lookups t = [name]))"
  proof
    assume a: "exceptions name = None \<and> countries_lookup env name = Inl e"
    then have a1: "exceptions name = None" and a2: "countries_lookup env name = Inl e"
      by simp_all
    from gci_fallback_partial [OF a1 a2]
    obtain r t where g: "get_country_info env name = (r, t)" "lookups t = [name]"
      and v: "\<forall>c f u. r = Inr (c, f, u) \<longrightarrow>
            c = replace_space (lower (unicode_lower env) name) \<and> f = name \<and> u = flag_of c
            \<and> notify_calls t = [warning_msg name (replace_space (lower (unicode_lower env) name))]"
      by auto
    from g have p1: "lookups (snd (get_country_info env name)) = [name]" by simp
    from g v have p2: "\<forall>c' f' u. fst (get_country_info env name) = Inr (c', f', u) \<longrightarrow>
             c' = replace_space (lower (unicode_lower env) name) \<and> f' = name"
      by auto
    have p3: "prints_succeed env \<and> transport_raises_Exception_only env \<longrightarrow>
           (\<exists>u t. get_country_info env name
                    = (Inr (replace_space (lower (unicode_lower env) name), name, u), t)
                  \<and> lookups t = [name])"
      using gci_fallback_returns [OF a1 a2] by blast
    from p1 p2 p3 show "lookups (snd (get_country_info env name)) = [name]
      \<and> (\<forall>c' f' u. fst (get_country_info env name) = Inr (c', f', u) \<longrightarrow>
             c' = replace_space (lower (unicode_lower env) name) \<and> f' = name)
      \<and> (prints_succeed env \<and> transport_raises_Exception_only env \<longrightarrow>
           (\<exists>u t. get_country_info env name
                    = (Inr (replace_space (lower (unicode_lower env) name), name, u), t)
                  \<and> lookups t = [name]))"
      by blast
  qed
  have keys: "dom exceptions = {''South Korea'', ''United States'', ''Global'', ''Russia''}"
    by (auto simp: exceptions_def split: if_splits)
  have entries: "exceptions ''South Korea'' = Some (''kr'', ''South Korea'')"
    "exceptions ''United States'' = Some (''us'', ''United States'')"
    "exceptions ''Global'' = Some (''global'', ''Global'')"
    "exceptions ''Russia'' = Some (''ru'', ''Russia'')"
    by (simp_all add: exceptions_def)
  from table found fallback keys entries show ?thesis by blast
qed

text \<open>
  The theorem in the sample environment: \<^verbatim>\<open>United States\<close> is a key and the lookup would
  recognise it, yet the trace is empty; \<^verbatim>\<open>USA\<close> is no key and is looked up; \<^verbatim>\<open>russia\<close>
  differs from the key in case only and falls through to the fallback.
\<close>

theorem get_country_info_precedence_witness:
  "exceptions ''United States'' = Some (''us'', ''United States'')
   \<and> countries_lookup sample_env ''United States''
       = Inr \<lparr>alpha_2 = ''US'', pyc_name = ''United States''\<rparr>
   \<and> (\<exists>u. get_country_info sample_env ''United States''
             = (Inr (''us'', ''United States'', u), []))
   \<and> exceptions ''USA'' = None
   \<and> (\<exists>u. get_country_info sample_env ''USA''
             = (Inr (''us'', ''United States'', u), [Lookup ''USA'']))
   \<and> exceptions ''russia'' = None
   \<and> prints_succeed sample_env \<and> transport_raises_Exception_only sample_env
   \<and> (\<exists>u t. get_country_info sample_env ''russia'' = (Inr (''russia'', ''russia'', u), t)
           \<and> lookups t = [''russia''])"
proof -
  have l: "countries_lookup sample_env = sample_lookup" by (simp add: sample_env_def)
  have e: "exceptions ''United States'' = Some (''us'', ''United States'')"
    "exceptions ''USA'' = None" "exceptions ''russia'' = None"
    by (simp_all add: exceptions_def)
  from get_country_info_precedence [of "''United States''" "''us''" "''United States''" sample_env] e
  have a: "\<exists>u. get_country_info sample_env ''United States''
             = (Inr (''us'', ''United States'', u), [])"
    by blast
  from get_country_info_precedence [of "''USA''" _ _ sample_env
      "\<lparr>alpha_2 = ''US'', pyc_name = ''United States''\<rparr>"] e l
  have b: "\<exists>u. get_country_info sample_env ''USA''
             = (Inr (''us'', ''United States'', u), [Lookup ''USA''])"
    by (simp add: sample_lookup_values lower_ascii_values)
  from get_country_info_precedence [of "''russia''" _ _ sample_env _
      "Exception ''LookupError'' ''Could not find a record for russia''"] e l
  have c: "\<exists>u t. get_country_info sample_env ''russia'' = (Inr (''russia'', ''russia'', u), t)
           \<and> lookups t = [''russia'']"
    by (simp add: sample_lookup_values lower_ascii_values sample_env_ok replace_space_def)
  from a b c e l show ?thesis by (simp add: sample_lookup_values sample_env_ok)
qed







text \<open>
  Claim C4 as stated fails in one direction: the name \<^verbatim>\<open>UN\<close> is unknown to the lookup, its
  fallback code is \<^verbatim>\<open>un\<close>, and the URL built from that code is the URL of the UN flag,
  although the code is not \<^verbatim>\<open>global\<close>.
\<close>

theorem flag_url_un_counterexample:
  "get_country_info sample_env ''UN''
     = (Inr (''un'', ''UN'', ''https://flagcdn.com/w40/un.png''),
        [Lookup ''UN'', Print (warning_msg ''UN'' ''un''), Notify (warning_msg ''UN'' ''un''),
         Print (warning_sign @ '' SLACK_WEBHOOK_URL not set. Skipping notification.'')])
   \<and> ''un'' \<noteq> ''global''"
proof -
  have e: "exceptions ''UN'' = None" by (simp add: exceptions_def)
  have l: "countries_lookup sample_env ''UN''
      = Inl (Exception ''LookupError'' ''Could not find a record for un'')"
    by (simp add: sample_env_def sample_lookup_values)
  have c: "replace_space (lower (unicode_lower sample_env) ''UN'') = ''un''"
    by (simp add: replace_space_def lower_ascii_values)
  have p: "stdout_write sample_env m = None" for m by (simp add: sample_env_def)
  have s: "send_slack_message sample_env m
      = (Inr (), [Notify m,
                  Print (warning_sign @ '' SLACK_WEBHOOK_URL not set. Skipping notification.'')])"
    for m
    by (simp add: send_unset sample_env_def io_defs print_def)
  from gci_fallback_send [OF e l p s] c show ?thesis by (simp add: flag_of_def)
qed

text \<open>
  Claim C4, amended. The flag URL is the UN flag's when the code is \<^verbatim>\<open>global\<close>, and is
  built from the code otherwise; so it is the UN flag's exactly when the code is
  \<^verbatim>\<open>global\<close> or \<^verbatim>\<open>un\<close>.
\<close>

theorem flag_url_rule:
  "get_country_info env name = (Inr (code, full_name, flag_url), t) \<longrightarrow>
     (code = ''global'' \<longrightarrow> flag_url = ''https://flagcdn.com/w40/un.png'')
     \<and> (code \<noteq> ''global'' \<longrightarrow> flag_url = ''https://flagcdn.com/w40/'' @ code @ ''.png'')
     \<and> (flag_url = ''https://flagcdn.com/w40/un.png'' \<longleftrightarrow> code = ''global'' \<or> code = ''un'')"
proof
  assume a: "get_country_info env name = (Inr (code, full_name, flag_url), t)"
  obtain r t' where "get_country_info env name = (r, t')"
      "\<forall>c f u. r = Inr (c, f, u) \<longrightarrow> u = flag_of c"
    using gci_shape by blast
  with a have "flag_url = flag_of code" by auto
  then show "(code = ''global'' \<longrightarrow> flag_url = ''https://flagcdn.com/w40/un.png'')
     \<and> (code \<noteq> ''global'' \<longrightarrow> flag_url = ''https://flagcdn.com/w40/'' @ code @ ''.png'')
     \<and> (flag_url = ''https://flagcdn.com/w40/un.png'' \<longleftrightarrow> code = ''global'' \<or> code = ''un'')"
    by (auto simp: flag_of_def)
qed

text \<open>
  The amended claim at \<^verbatim>\<open>Global\<close> and at \<^verbatim>\<open>USA\<close> in the sample environment.
\<close>

theorem flag_url_rule_witness:
  "get_country_info sample_env ''Global''
     = (Inr (''global'', ''Global'', ''https://flagcdn.com/w40/un.png''), [])
   \<and> get_country_info sample_env ''USA''
     = (Inr (''us'', ''United States'', ''https://flagcdn.com/w40/us.png''), [Lookup ''USA''])"
proof -
  have g: "get_country_info sample_env ''Global''
     = (Inr (''global'', ''Global'', flag_of ''global''), [])"
    by (rule gci_table) (simp add: exceptions_def)
  have "exceptions ''USA'' = None" by (simp add: exceptions_def)
  then have u: "get_country_info sample_env ''USA''
     = (Inr (''us'', ''United States'', flag_of ''us''), [Lookup ''USA''])"
    using gci_lookup [of "''USA''" sample_env "\<lparr>alpha_2 = ''US'', pyc_name = ''United States''\<rparr>"]
    by (simp add: sample_env_def sample_lookup_values lower_ascii_values)
  from flag_url_rule [of sample_env "''Global''" "''global''" "''Global''" "flag_of ''global''" "[]"]
    flag_url_rule [of sample_env "''USA''" "''us''" "''United States''" "flag_of ''us''" "[Lookup ''USA'']"]
    g u
  show ?thesis by simp
qed

section \<open>Stripping\<close>

text \<open>
  What \<open>strip\<close> removes are whitespace characters at both ends, and what it leaves
  neither starts nor ends with one.
\<close>

lemma strip_prefixes_spec:
  "\<exists>ps. s = concat ps @ strip_prefixes ws s \<and> set ps \<subseteq> set ws
     \<and> (\<forall>w\<in>set ws. w \<noteq> [] \<longrightarrow> take (length w) (strip_prefixes ws s) \<noteq> w)"
proof (induction ws s rule: strip_prefixes.induct)
  case (1 ws s)
  show ?case
  proof (cases "find (\<lambda>w. w \<noteq> [] \<and> take (length w) s = w) ws")
    case None
    then have "strip_prefixes ws s = s" by (subst strip_prefixes.simps) simp
    moreover from None have "\<forall>w\<in>set ws. w \<noteq> [] \<longrightarrow> take (length w) s \<noteq> w"
      by (auto simp: find_None_iff)
    ultimately have "s = concat [] @ strip_prefixes ws s \<and> set [] \<subseteq> set ws
       \<and> (\<forall>w\<in>set ws. w \<noteq> [] \<longrightarrow> take (length w) (strip_prefixes ws s) \<noteq> w)"
      by simp
    then show ?thesis by blast
  next
    case (Some w)
    then have w: "w \<in> set ws" "take (length w) s = w"
      by (auto simp: find_Some_iff)
    from Some have eq: "strip_prefixes ws s = strip_prefixes ws (drop (length w) s)"
      by (subst strip_prefixes.simps) simp
    from 1 [OF Some] obtain ps where ps: "drop (length w) s = concat ps @ strip_prefixes ws s"
      "set ps \<subseteq> set ws"
      "\<forall>w\<in>set ws. w \<noteq> [] \<longrightarrow> take (length w) (strip_prefixes ws s) \<noteq> w"
      unfolding eq by blast
    have "s = take (length w) s @ drop (length w) s" by simp
    with w(2) ps(1) have "s = concat (w # ps) @ strip_prefixes ws s" by simp
    moreover from w(1) ps(2) have "set (w # ps) \<subseteq> set ws" by simp
    ultimately show ?thesis using ps(3) by blast
  qed
qed

lemma whitespace_nonempty: "w \<in> set whitespace \<Longrightarrow> w \<noteq> []"
  by (auto simp: whitespace_def)

lemma strip_trims:
  "\<exists>a b. s = concat a @ strip s @ concat b
     \<and> set a \<subseteq> set whitespace \<and> set b \<subseteq> set whitespace
     \<and> (\<forall>w\<in>set whitespace. take (length w) (strip s) \<noteq> w
                               \<and> take (length w) (rev (strip s)) \<noteq> rev w)"
proof -
  let ?t = "lstrip s"
  let ?u = "strip_prefixes (map rev whitespace) (rev ?t)"
  have st: "strip s = rev ?u" by (simp add: strip_def rstrip_def)
  obtain a where a: "s = concat a @ ?t" "set a \<subseteq> set whitespace"
    and no_prefix: "\<forall>w\<in>set whitespace. w \<noteq> [] \<longrightarrow> take (length w) ?t \<noteq> w"
    using strip_prefixes_spec [of s whitespace] unfolding lstrip_def by blast
  obtain c where c: "rev ?t = concat c @ ?u" "set c \<subseteq> set (map rev whitespace)"
    and no_suffix: "\<forall>w\<in>set (map rev whitespace). w \<noteq> [] \<longrightarrow> take (length w) ?u \<noteq> w"
    using strip_prefixes_spec [of "rev ?t" "map rev whitespace"] by blast
  from c(1) have "rev (rev ?t) = rev (concat c @ ?u)" by (rule arg_cong)
  then have t: "?t = strip s @ concat (map rev (rev c))"
    by (simp add: st rev_concat)
  from c(2) have b: "set (map rev (rev c)) \<subseteq> set whitespace" by auto
  have ends: "\<forall>w\<in>set whitespace. take (length w) (strip s) \<noteq> w
                               \<and> take (length w) (rev (strip s)) \<noteq> rev w"
  proof
    fix w assume w: "w \<in> set whitespace"
    then have ne: "w \<noteq> []" by (rule whitespace_nonempty)
    have p: "take (length w) (strip s) \<noteq> w"
    proof
      assume e: "take (length w) (strip s) = w"
      then have "length w \<le> length (strip s)" by (metis length_take min.cobounded1 min.commute)
      with e have "take (length w) (strip s @ concat (map rev (rev c))) = w" by simp
      with t have "take (length w) ?t = w" by simp
      with no_prefix w ne show False by blast
    qed
    from w have "rev w \<in> set (map rev whitespace)" by simp
    with no_suffix ne have "take (length (rev w)) ?u \<noteq> rev w" by (metis Nil_is_rev_conv)
    then have q: "take (length w) (rev (strip s)) \<noteq> rev w" by (simp add: st)
    from p q show "take (length w) (strip s) \<noteq> w \<and> take (length w) (rev (strip s)) \<noteq> rev w"
      by simp
  qed
  from a(1) t have "s = concat a @ strip s @ concat (map rev (rev c))" by simp
  with a(2) b ends show ?thesis by blast
qed

section \<open>Splitting\<close>

lemma split_Nil: "split sep [] = [[]]"
  by (simp add: split.simps)

lemma split_not_Nil: "split sep s \<noteq> []"
  by (induction sep s rule: split.induct) (subst split.simps, simp split: list.splits)

lemma split_char_eq: "split [c] (c # xs) = [] # split [c] xs"
  by (subst split.simps) simp

lemma split_char_neq:
  "x \<noteq> c \<Longrightarrow> split [c] (x # xs) = (x # hd (split [c] xs)) # tl (split [c] xs)"
  using split_not_Nil [of "[c]" xs]
  by (subst split.simps) (simp split: list.splits)

lemma split_char_append:
  "split [c] (u @ c # v) = split [c] u @ split [c] v"
proof (induction u)
  case Nil
  then show ?case by (simp add: split_char_eq split_Nil)
next
  case (Cons x u)
  show ?case
  proof (cases "x = c")
    case True
    with Cons show ?thesis by (simp add: split_char_eq)
  next
    case False
    have "split [c] u \<noteq> []" by (rule split_not_Nil)
    with False Cons show ?thesis by (simp add: split_char_neq)
  qed
qed

lemma split_char_none: "c \<notin> set s \<Longrightarrow> split [c] s = [s]"
proof (induction s)
  case Nil
  then show ?case by (simp add: split_Nil)
next
  case (Cons x s)
  then have "x \<noteq> c" "split [c] s = [s]" by auto
  then show ?case by (simp add: split_char_neq)
qed

lemma length_split_char: "length (split [c] s) = Suc (count_list s c)"
proof (induction s)
  case Nil
  then show ?case by (simp add: split_Nil)
next
  case (Cons x s)
  have "split [c] s \<noteq> []" by (rule split_not_Nil)
  with Cons show ?case
    by (cases "x = c") (simp_all add: split_char_eq split_char_neq)
qed

lemma join_split_char: "join [c] (split [c] s) = s"
proof (induction s)
  case Nil
  then show ?case by (simp add: split_Nil)
next
  case (Cons x s)
  obtain p ps where ps: "split [c] s = p # ps"
    using split_not_Nil [of "[c]" s] by (cases "split [c] s") auto
  show ?case
  proof (cases "x = c")
    case True
    with Cons ps show ?thesis by (simp add: split_char_eq)
  next
    case False
    with Cons ps show ?thesis by (cases ps) (simp_all add: split_char_neq)
  qed
qed

lemma split_char_pieces: "p \<in> set (split [c] s) \<Longrightarrow> c \<notin> set p"
proof (induction s arbitrary: p)
  case Nil
  then show ?case by (simp add: split_Nil)
next
  case (Cons x s)
  obtain q qs where qs: "split [c] s = q # qs"
    using split_not_Nil [of "[c]" s] by (cases "split [c] s") auto
  show ?case
  proof (cases "x = c")
    case True
    with Cons show ?thesis by (auto simp: split_char_eq)
  next
    case False
    with Cons.prems qs have "p = x # q \<or> p \<in> set qs" by (simp add: split_char_neq)
    with False Cons.IH qs show ?thesis by auto
  qed
qed

text \<open>A separator of any length: no occurrence, and the first occurrence.\<close>

lemma split_no_occurrence:
  "sep \<noteq> [] \<Longrightarrow> \<forall>j. take (length sep) (drop j s) \<noteq> sep \<Longrightarrow> split sep s = [s]"
proof (induction s)
  case Nil
  then show ?case by (simp add: split_Nil)
next
  case (Cons x s)
  from Cons.prems(2) have here: "take (length sep) (x # s) \<noteq> sep"
    by (metis drop0)
  have "\<forall>j. take (length sep) (drop j s) \<noteq> sep"
  proof
    fix j
    from Cons.prems(2) have "take (length sep) (drop (Suc j) (x # s)) \<noteq> sep" by blast
    then show "take (length sep) (drop j s) \<noteq> sep" by simp
  qed
  with Cons have "split sep s = [s]" by blast
  with here Cons.prems(1) show ?case by (subst split.simps) simp
qed

lemma split_first_occurrence:
  "sep \<noteq> [] \<Longrightarrow> \<forall>j<length u. take (length sep) (drop j (u @ sep @ v)) \<noteq> sep \<Longrightarrow>
   hd (split sep (u @ sep @ v)) = u"
proof (induction u)
  case Nil
  then show ?case by (subst split.simps) simp
next
  case (Cons x u)
  from Cons.prems(2) have here: "take (length sep) ((x # u) @ sep @ v) \<noteq> sep"
    by (metis drop0 length_greater_0_conv list.distinct(1))
  have "\<forall>j<length u. take (length sep) (drop j (u @ sep @ v)) \<noteq> sep"
  proof (intro allI impI)
    fix j assume "j < length u"
    then have "Suc j < length (x # u)" by simp
    with Cons.prems(2) have "take (length sep) (drop (Suc j) ((x # u) @ sep @ v)) \<noteq> sep"
      by blast
    then show "take (length sep) (drop j (u @ sep @ v)) \<noteq> sep" by simp
  qed
  with Cons have ih: "hd (split sep (u @ sep @ v)) = u" by blast
  have ne: "split sep (u @ sep @ v) \<noteq> []" by (rule split_not_Nil)
  from here Cons.prems(1) ih ne show ?case
    by (subst split.simps) (auto split: list.splits)
qed

section \<open>The record builder: claims\<close>

lemma strip_prefixes_Nil: "strip_prefixes ws [] = []"
proof -
  have "find (\<lambda>w. w \<noteq> [] \<and> take (length w) [] = w) ws = None"
    by (auto simp: find_None_iff)
  then show ?thesis by (subst strip_prefixes.simps) simp
qed

lemma strip_Nil: "strip [] = []"
  by (simp add: strip_def lstrip_def rstrip_def strip_prefixes_Nil)

lemmas strip_eval = strip_def lstrip_def rstrip_def whitespace_def strip_prefixes.simps

lemma clean_category_hd:
  "val \<noteq> [] \<Longrightarrow> clean_category val = Inr (strip (hd (split '' - '' val)))"
  using split_not_Nil [of "'' - ''" val]
  by (simp add: clean_category_def split: list.splits)

lemma clean_category_Inr: "\<exists>category. clean_category val = Inr category"
proof (cases "val = []")
  case True
  then show ?thesis by (simp add: clean_category_def)
next
  case False
  then show ?thesis by (simp add: clean_category_hd)
qed

lemma hd_split_dash:
  "\<forall>j<length u. take 3 (drop j (u @ '' - '' @ v)) \<noteq> '' - '' \<Longrightarrow>
   hd (split '' - '' (u @ '' - '' @ v)) = u"
proof -
  assume a: "\<forall>j<length u. take 3 (drop j (u @ '' - '' @ v)) \<noteq> '' - ''"
  have len: "length '' - '' = 3" by simp
  have ne: "'' - '' \<noteq> []" by simp
  from split_first_occurrence [OF ne, unfolded len, OF a] show ?thesis .
qed

lemma split_dash_none:
  "\<forall>j. take 3 (drop j s) \<noteq> '' - '' \<Longrightarrow> split '' - '' s = [s]"
proof -
  assume a: "\<forall>j. take 3 (drop j s) \<noteq> '' - ''"
  have len: "length '' - '' = 3" by simp
  have ne: "'' - '' \<noteq> []" by simp
  from split_no_occurrence [OF ne, unfolded len, OF a] show ?thesis .
qed

lemma make_item_Inr:
  "\<exists>it. make_item env file_code i r = Inr it
     \<and> item_id it = index_to_id file_code i
     \<and> item_tags it = tags_of (Search_Tags r)
     \<and> clean_category (Category r) = Inr (item_category it)"
proof -
  obtain category where "clean_category (Category r) = Inr category"
    using clean_category_Inr by blast
  then show ?thesis by (simp add: make_item_def)
qed

text \<open>
  Claim C7. When \<^verbatim>\<open>' - '\<close> occurs in the value and its first occurrence starts right
  after \<open>u\<close> (no occurrence starts at an earlier position), \<^verbatim>\<open>clean_category\<close> returns
  \<open>u\<close> stripped; when the separator does not occur, it returns the whole value stripped.
  So \<^verbatim>\<open>"tech - software"\<close> gives \<^verbatim>\<open>"tech"\<close> and the empty string gives the empty string.
\<close>

theorem clean_category_first_segment:
  "(val = u @ '' - '' @ v \<and> (\<forall>j<length u. take 3 (drop j val) \<noteq> '' - '')
      \<longrightarrow> clean_category val = Inr (strip u))
   \<and> ((\<forall>j. take 3 (drop j val) \<noteq> '' - '') \<longrightarrow> clean_category val = Inr (strip val))
   \<and> clean_category ''tech - software'' = Inr ''tech''
   \<and> clean_category '''' = Inr ''''"
proof -
  have first: "val = u @ '' - '' @ v \<and> (\<forall>j<length u. take 3 (drop j val) \<noteq> '' - '')
      \<longrightarrow> clean_category val = Inr (strip u)"
  proof
    assume a: "val = u @ '' - '' @ v \<and> (\<forall>j<length u. take 3 (drop j val) \<noteq> '' - '')"
    then have "\<forall>j<length u. take 3 (drop j (u @ '' - '' @ v)) \<noteq> '' - ''"
      by blast
    then have "hd (split '' - '' (u @ '' - '' @ v)) = u"
      by (rule hd_split_dash)
    moreover from a have "val \<noteq> []" by simp
    ultimately show "clean_category val = Inr (strip u)"
      using a by (simp add: clean_category_hd)
  qed
  have none: "(\<forall>j. take 3 (drop j val) \<noteq> '' - '') \<longrightarrow> clean_category val = Inr (strip val)"
  proof
    assume a: "\<forall>j. take 3 (drop j val) \<noteq> '' - ''"
    then have "split '' - '' val = [val]"
      by (rule split_dash_none)
    then show "clean_category val = Inr (strip val)"
      by (cases "val = []") (simp_all add: clean_category_def strip_Nil)
  qed
  have ex1: "clean_category ''tech - software'' = Inr ''tech''"
    by (simp add: clean_category_def split.simps strip_eval)
  have ex2: "clean_category '''' = Inr ''''"
    by (simp add: clean_category_def)
  from first none ex1 ex2 show ?thesis by blast
qed

text \<open>
  The theorem at a value with two separators, at a value with none, and at a value
  with U+00A0 before the separator.
\<close>

theorem clean_category_first_segment_witness:
  "clean_category ''health  - a - b'' = Inr ''health''
   \<and> clean_category '' arts-and-crafts '' = Inr ''arts-and-crafts''
   \<and> clean_category (''tech'' @ nbsp @ '' - software'') = Inr ''tech''"
proof -
  have "\<forall>j<length (''tech'' @ nbsp). take 3 (drop j (''tech'' @ nbsp @ '' - software'')) \<noteq> '' - ''"
    by (simp add: less_Suc_eq nbsp_def)
  with clean_category_first_segment [of "''tech'' @ nbsp @ '' - software''" "''tech'' @ nbsp"
      "''software''"]
  have c: "clean_category (''tech'' @ nbsp @ '' - software'') = Inr (strip (''tech'' @ nbsp))"
    by simp
  have c': "strip (''tech'' @ nbsp) = ''tech''" by (simp add: strip_eval nbsp_def)
  have "\<forall>j<length ''health ''. take 3 (drop j ''health  - a - b'') \<noteq> '' - ''"
    by (simp add: less_Suc_eq)
  with clean_category_first_segment [of "''health  - a - b''" "''health ''" "''a - b''"]
  have a: "clean_category ''health  - a - b'' = Inr (strip ''health '')" by simp
  have "\<forall>j. take 3 (drop j '' arts-and-crafts '') \<noteq> '' - ''"
  proof
    fix j :: nat
    have "j < 17 \<or> 17 \<le> j" by linarith
    then show "take 3 (drop j '' arts-and-crafts '') \<noteq> '' - ''"
      by (auto simp: less_Suc_eq numeral_eq_Suc)
  qed
  with clean_category_first_segment [of "'' arts-and-crafts ''"]
  have b: "clean_category '' arts-and-crafts '' = Inr (strip '' arts-and-crafts '')" by simp
  from a b c show ?thesis unfolding c' by (simp add: strip_eval)
qed

lemma tags_of_Nil: "tags_of [] = []"
  by (simp add: tags_of_def)

lemma tags_of_split: "s \<noteq> [] \<Longrightarrow> tags_of s = map strip (split '','' s)"
  by (simp add: tags_of_def)

text \<open>
  Only the empty field is skipped. A cell that holds one space is not blank for the
  program: the field is not empty, and its single piece is stripped to the empty string.
\<close>

lemma tags_of_one_space: "tags_of '' '' = ['''']"
  by (simp add: tags_of_def split.simps strip_eval)

text \<open>
  Claim C8. Every row gives an item. Its tags are the empty list exactly when the Search
  Tags field is empty, which is what a blank cell of the sheet is after \<^verbatim>\<open>fillna("")\<close>;
  otherwise they are the pieces of the field between its commas (pieces that hold no
  comma and that, joined by commas, give the field back), each stripped. So
  \<^verbatim>\<open>"a, b,c"\<close> gives \<^verbatim>\<open>["a","b","c"]\<close> and the empty field gives \<^verbatim>\<open>[]\<close>, not \<^verbatim>\<open>[""]\<close>.
\<close>

theorem make_item_tags:
  "(\<exists>it. make_item env file_code i r = Inr it
      \<and> (item_tags it = [] \<longleftrightarrow> Search_Tags r = [])
      \<and> (Search_Tags r \<noteq> [] \<longrightarrow>
           (\<exists>pieces. join '','' pieces = Search_Tags r
               \<and> (\<forall>p\<in>set pieces. CHR '','' \<notin> set p)
               \<and> item_tags it = map strip pieces)))
   \<and> tags_of ''a, b,c'' = [''a'', ''b'', ''c'']
   \<and> tags_of '''' = []"
proof -
  obtain it where it: "make_item env file_code i r = Inr it"
      "item_tags it = tags_of (Search_Tags r)"
    using make_item_Inr by blast
  have blank: "item_tags it = [] \<longleftrightarrow> Search_Tags r = []"
    using it split_not_Nil [of "'',''" "Search_Tags r"] by (simp add: tags_of_def)
  have pieces: "Search_Tags r \<noteq> [] \<longrightarrow>
           (\<exists>pieces. join '','' pieces = Search_Tags r
               \<and> (\<forall>p\<in>set pieces. CHR '','' \<notin> set p)
               \<and> item_tags it = map strip pieces)"
  proof
    assume ne: "Search_Tags r \<noteq> []"
    let ?ps = "split '','' (Search_Tags r)"
    have "join '','' ?ps = Search_Tags r" by (rule join_split_char)
    moreover have "\<forall>p\<in>set ?ps. CHR '','' \<notin> set p" by (blast dest: split_char_pieces)
    moreover from ne it have "item_tags it = map strip ?ps" by (simp add: tags_of_split)
    ultimately show "\<exists>pieces. join '','' pieces = Search_Tags r
               \<and> (\<forall>p\<in>set pieces. CHR '','' \<notin> set p)
               \<and> item_tags it = map strip pieces"
      by blast
  qed
  have ex1: "tags_of ''a, b,c'' = [''a'', ''b'', ''c'']"
    by (simp add: tags_of_def split.simps strip_eval)
  have ex2: "tags_of '''' = []" by (rule tags_of_Nil)
  from it blank pieces ex1 ex2 show ?thesis by blast
qed

text \<open>
  Claim C10. The tags of an item are empty only when the field is empty. A field that is
  not empty gives one tag more than it has commas, and the tag between two consecutive
  commas, the tag before a leading comma and the tag after a trailing comma are the empty
  string: \<^verbatim>\<open>"a,,b"\<close> gives \<^verbatim>\<open>["a","","b"]\<close> and \<^verbatim>\<open>"a,"\<close> gives \<^verbatim>\<open>["a",""]\<close>.
\<close>

theorem tags_keep_empty_elements:
  "(\<exists>it. make_item env file_code i r = Inr it
      \<and> (item_tags it = [] \<longleftrightarrow> Search_Tags r = [])
      \<and> (Search_Tags r \<noteq> [] \<longrightarrow>
            length (item_tags it) = Suc (count_list (Search_Tags r) CHR '',''))
      \<and> (Search_Tags r = u @ '',,'' @ v \<longrightarrow>
            item_tags it ! Suc (count_list u CHR '','') = [])
      \<and> (Search_Tags r = '','' @ rest \<longrightarrow> item_tags it ! 0 = [])
      \<and> (Search_Tags r = front @ '','' \<longrightarrow> last (item_tags it) = []))
   \<and> tags_of ''a,,b'' = [''a'', [], ''b'']
   \<and> tags_of ''a,'' = [''a'', []]"
proof -
  let ?c = "CHR '',''"
  obtain it where it: "make_item env file_code i r = Inr it"
      "item_tags it = tags_of (Search_Tags r)"
    using make_item_Inr by blast
  have sep: "'','' = [?c]" by simp
  have only_blank: "item_tags it = [] \<longleftrightarrow> Search_Tags r = []"
    using it split_not_Nil [of "'',''" "Search_Tags r"] by (simp add: tags_of_def)
  have len: "Search_Tags r \<noteq> [] \<longrightarrow>
            length (item_tags it) = Suc (count_list (Search_Tags r) ?c)"
    using it by (simp add: tags_of_split length_split_char)
  have inner: "Search_Tags r = u @ '',,'' @ v \<longrightarrow>
            item_tags it ! Suc (count_list u ?c) = []"
  proof
    assume a: "Search_Tags r = u @ '',,'' @ v"
    then have "Search_Tags r = u @ ?c # (?c # v)" by simp
    then have "split [?c] (Search_Tags r) = split [?c] u @ ([] # split [?c] v)"
      by (simp add: split_char_append split_char_eq)
    moreover from a have "Search_Tags r \<noteq> []" by simp
    ultimately have "item_tags it = map strip (split [?c] u) @ ([] # map strip (split [?c] v))"
      using it by (simp add: tags_of_split strip_Nil)
    moreover have "length (map strip (split [?c] u)) = Suc (count_list u ?c)"
      by (simp add: length_split_char)
    ultimately show "item_tags it ! Suc (count_list u ?c) = []"
      by (metis nth_append_length)
  qed
  have leading: "Search_Tags r = '','' @ rest \<longrightarrow> item_tags it ! 0 = []"
    using it by (auto simp: tags_of_def split_char_eq strip_Nil)
  have trailing: "Search_Tags r = front @ '','' \<longrightarrow> last (item_tags it) = []"
  proof
    assume a: "Search_Tags r = front @ '',''"
    then have "split [?c] (Search_Tags r) = split [?c] front @ [[]]"
      by (simp add: split_char_append split_Nil)
    moreover from a have "Search_Tags r \<noteq> []" by simp
    ultimately show "last (item_tags it) = []"
      using it by (simp add: tags_of_split strip_Nil)
  qed
  have ex1: "tags_of ''a,,b'' = [''a'', [], ''b'']"
    by (simp add: tags_of_def split.simps strip_eval)
  have ex2: "tags_of ''a,'' = [''a'', []]"
    by (simp add: tags_of_def split.simps strip_eval)
  from it only_blank len inner leading trailing ex1 ex2 show ?thesis by blast
qed

lemma make_item_sample:
  "make_item sample_env ''kr'' 0 (sample_row ''South Korea'' ''tech - software'' ts)
     = Inr \<lparr>item_id = ''kr_001'', item_name = ''Org'', item_category = ''tech'',
            item_country = ''KR'', item_tags = tags_of ts,
            item_url = ''https://example.org'', item_desc = ''''\<rparr>"
  by (simp add: make_item_def sample_row_def clean_category_def split.simps strip_eval
      index_to_id_def format_03d_def str_nat.simps numeral_2_eq_2
      upper_def is_ascii_def upper_char_def)

text \<open>
  Claim C8 at a row whose field is \<^verbatim>\<open>"x, y z ,"\<close>, U+3000, \<^verbatim>\<open>"w"\<close>, U+00A0.
\<close>

theorem make_item_tags_witness:
  "Search_Tags (sample_row ''South Korea'' ''tech - software''
                  (''x, y z ,'' @ ideographic_space @ ''w'' @ nbsp)) \<noteq> []
   \<and> (\<exists>it. make_item sample_env ''kr'' 0
               (sample_row ''South Korea'' ''tech - software''
                  (''x, y z ,'' @ ideographic_space @ ''w'' @ nbsp)) = Inr it
        \<and> item_tags it = [''x'', ''y z'', ''w''])"
proof -
  let ?ts = "''x, y z ,'' @ ideographic_space @ ''w'' @ nbsp"
  let ?r = "sample_row ''South Korea'' ''tech - software'' ?ts"
  have ne: "Search_Tags ?r \<noteq> []" by (simp add: sample_row_def)
  from make_item_tags [of sample_env "''kr''" 0 ?r]
  obtain it where it: "make_item sample_env ''kr'' 0 ?r = Inr it" by blast
  then have "item_tags it = tags_of ?ts" by (auto simp: make_item_sample)
  moreover have "tags_of ?ts = [''x'', ''y z'', ''w'']"
    by (simp add: tags_of_def split.simps strip_eval ideographic_space_def nbsp_def)
  ultimately have "item_tags it = [''x'', ''y z'', ''w'']" by simp
  with ne it show ?thesis by blast
qed

text \<open>
  Claim C10 at a row whose field is \<^verbatim>\<open>",a,,b,"\<close>.
\<close>

theorem tags_keep_empty_elements_witness:
  "(\<exists>it. make_item sample_env ''kr'' 0 (sample_row ''South Korea'' ''tech - software'' '',a,,b,'') = Inr it
      \<and> Search_Tags (sample_row ''South Korea'' ''tech - software'' '',a,,b,'')
          = '',a'' @ '',,'' @ ''b,''
      \<and> count_list '',a'' CHR '','' = 1
      \<and> item_tags it ! 2 = []
      \<and> item_tags it ! 0 = []
      \<and> last (item_tags it) = []
      \<and> length (item_tags it) = 5)"
proof -
  let ?r = "sample_row ''South Korea'' ''tech - software'' '',a,,b,''"
  have s: "Search_Tags ?r = '',a,,b,''" by (simp add: sample_row_def)
  from tags_keep_empty_elements [of sample_env "''kr''" 0 ?r "'',a''" "''b,''" "''a,,b,''" "'',a,,b''"]
  obtain it where it: "make_item sample_env ''kr'' 0 ?r = Inr it"
    and len: "Search_Tags ?r \<noteq> [] \<longrightarrow>
            length (item_tags it) = Suc (count_list (Search_Tags ?r) CHR '','')"
    and inner: "Search_Tags ?r = '',a'' @ '',,'' @ ''b,'' \<longrightarrow>
            item_tags it ! Suc (count_list '',a'' CHR '','') = []"
    and leading: "Search_Tags ?r = '','' @ ''a,,b,'' \<longrightarrow> item_tags it ! 0 = []"
    and trailing: "Search_Tags ?r = '',a,,b'' @ '','' \<longrightarrow> last (item_tags it) = []"
    by blast
  from len s have "length (item_tags it) = 5" by simp
  moreover from inner s have "item_tags it ! 2 = []" by (simp add: numeral_2_eq_2)
  moreover from leading s have "item_tags it ! 0 = []" by simp
  moreover from trailing s have "last (item_tags it) = []" by simp
  ultimately show ?thesis using it s by simp
qed

section \<open>The run: every group, every entry\<close>

lemma writes_Nil_records: "writes t = [] \<Longrightarrow> records_written t = []"
  by (induction t rule: records_written.induct) simp_all

lemma writes_Nil_index: "writes t = [] \<Longrightarrow> index_written t = []"
  by (induction t rule: index_written.induct) simp_all

lemma fst_bind:
  "fst (bind m f) = (case fst m of Inl e \<Rightarrow> Inl e | Inr x \<Rightarrow> fst (f x))"
  by (simp add: bind_def split: prod.splits sum.splits)

lemma snd_bind:
  "snd (bind m f) = (case fst m of Inl e \<Rightarrow> snd m | Inr x \<Rightarrow> snd m @ snd (f x))"
  by (simp add: bind_def split: prod.splits sum.splits)

lemma bind_Inr:
  "bind m f = (Inr y, t) \<Longrightarrow> \<exists>x t1 t2. m = (Inr x, t1) \<and> f x = (Inr y, t2) \<and> t = t1 @ t2"
  by (auto simp: bind_def split: prod.splits sum.splits)

lemma build_items_Inr:
  "\<exists>its. build_items env file_code i rows = Inr its \<and> length its = length rows"
proof (induction rows arbitrary: i)
  case Nil
  then show ?case by simp
next
  case (Cons r rows)
  obtain it where "make_item env file_code i r = Inr it"
    using make_item_Inr by blast
  moreover obtain its where "build_items env file_code (Suc i) rows = Inr its"
      "length its = length rows"
    using Cons by blast
  ultimately show ?case by simp
qed

lemma process_group_Inl:
  "get_country_info env name = (Inl e, t) \<Longrightarrow> process_group env (name, rows) = (Inl e, t)"
  by (simp add: process_group_def bind_def)

lemma process_group_eq:
  "get_country_info env name = (Inr (c, f, u), t) \<Longrightarrow> build_items env c 0 rows = Inr its \<Longrightarrow>
   process_group env (name, rows) =
     (case open_write env (''contributors/'' @ c @ ''.json'') of
        Some e \<Rightarrow> (Inl e, t)
      | None \<Rightarrow>
          (case stdout_write env (check_mark @ '' Saved '' @ ''contributors/'' @ c @ ''.json''
                                  @ '' ('' @ str_nat (length its) @ '' items)'') of
             Some e \<Rightarrow> (Inl e, t @ [Write (''contributors/'' @ c @ ''.json'') (Records its)])
           | None \<Rightarrow>
               (Inr \<lparr>entry_country = f, entry_code = c, entry_flag = u,
                     entry_path = ''contributors/'' @ c @ ''.json'',
                     entry_count = length its\<rparr>,
                t @ [Write (''contributors/'' @ c @ ''.json'') (Records its),
                     Print (check_mark @ '' Saved '' @ ''contributors/'' @ c @ ''.json''
                            @ '' ('' @ str_nat (length its) @ '' items)'')])))"
  by (simp add: process_group_def io_defs act_defs Let_def split: option.splits)

lemma process_group_index: "index_written (snd (process_group env g)) = []"
proof -
  obtain name rows where gp: "g = (name, rows)" by (cases g)
  obtain r t where g: "get_country_info env name = (r, t)" "writes t = []"
    using gci_shape by blast
  then have i: "index_written t = []" by (simp add: writes_Nil_index)
  show ?thesis
  proof (cases r)
    case (Inl e)
    with g gp i show ?thesis by (simp add: process_group_Inl)
  next
    case (Inr p)
    obtain c f u where p: "p = (c, f, u)" by (cases p)
    obtain its where "build_items env c 0 rows = Inr its"
      using build_items_Inr by blast
    with Inr p g gp i show ?thesis
      by (simp add: process_group_eq index_written_append split: option.splits)
  qed
qed

lemma process_group_Inr:
  assumes "process_group env (name, rows) = (Inr entry, t)"
  shows "\<exists>its. records_written t = [(entry_path entry, its)]
     \<and> entry_count entry = length its \<and> length its = length rows"
proof -
  obtain r t1 where g: "get_country_info env name = (r, t1)" "writes t1 = []"
    using gci_shape by blast
  then have i: "records_written t1 = []" by (simp add: writes_Nil_records)
  show ?thesis
  proof (cases r)
    case (Inl e)
    with g assms show ?thesis by (simp add: process_group_Inl)
  next
    case (Inr p)
    obtain c f u where p: "p = (c, f, u)" by (cases p)
    obtain its where b: "build_items env c 0 rows = Inr its" "length its = length rows"
      using build_items_Inr by blast
    from Inr p g(1) b(1) assms have
      "(case open_write env (''contributors/'' @ c @ ''.json'') of
        Some e \<Rightarrow> (Inl e, t1)
      | None \<Rightarrow>
          (case stdout_write env (check_mark @ '' Saved '' @ ''contributors/'' @ c @ ''.json''
                                  @ '' ('' @ str_nat (length its) @ '' items)'') of
             Some e \<Rightarrow> (Inl e, t1 @ [Write (''contributors/'' @ c @ ''.json'') (Records its)])
           | None \<Rightarrow>
               (Inr \<lparr>entry_country = f, entry_code = c, entry_flag = u,
                     entry_path = ''contributors/'' @ c @ ''.json'',
                     entry_count = length its\<rparr>,
                t1 @ [Write (''contributors/'' @ c @ ''.json'') (Records its),
                     Print (check_mark @ '' Saved '' @ ''contributors/'' @ c @ ''.json''
                            @ '' ('' @ str_nat (length its) @ '' items)'')]))) = (Inr entry, t)"
      by (simp add: process_group_eq)
    with i b(2) show ?thesis
      by (auto simp: records_written_append split: option.splits)
  qed
qed

lemma process_groups_index: "index_written (snd (process_groups env gs)) = []"
proof (induction gs)
  case Nil
  then show ?case by (simp add: return_def)
next
  case (Cons g gs)
  then show ?case
    by (simp add: snd_bind process_group_index index_written_append return_def
        split: sum.splits)
qed

lemma process_groups_Inr:
  "process_groups env gs = (Inr es, t) \<Longrightarrow>
     map entry_path es = map fst (records_written t)
     \<and> map entry_count es = map (\<lambda>(p, its). length its) (records_written t)
     \<and> map entry_count es = map (\<lambda>(k, rows). length rows) gs"
proof (induction gs arbitrary: es t)
  case Nil
  then show ?case by (simp add: return_def)
next
  case (Cons g gs)
  obtain name rows where gp: "g = (name, rows)" by (cases g)
  from Cons.prems obtain entry t1 t2 where
    p: "process_group env g = (Inr entry, t1)"
    and q: "bind (process_groups env gs) (\<lambda>entries. return (entry # entries)) = (Inr es, t2)"
    and t: "t = t1 @ t2"
    by (auto dest: bind_Inr)
  from q obtain es' t3 t4 where
    r: "process_groups env gs = (Inr es', t3)" and "return (entry # es') = (Inr es, t4)"
    and "t2 = t3 @ t4"
    by (auto dest: bind_Inr)
  then have es: "es = entry # es'" and t2: "t2 = t3" by (simp_all add: return_def)
  from p gp obtain its where i: "records_written t1 = [(entry_path entry, its)]"
     "entry_count entry = length its" "length its = length rows"
    using process_group_Inr by blast
  from Cons.IH [OF r] have ih1: "map entry_path es' = map fst (records_written t3)"
    and ih2: "map entry_count es' = map (\<lambda>(p, its). length its) (records_written t3)"
    and ih3: "map entry_count es' = map (\<lambda>(k, rows). length rows) gs"
    by blast+
  have c1: "map entry_path es = map fst (records_written t)"
    unfolding es t t2 using ih1 i(1) by (simp add: records_written_append)
  have c2: "map entry_count es = map (\<lambda>(p, its). length its) (records_written t)"
    unfolding es t t2 using ih2 i(1,2) by (simp add: records_written_append)
  have c3: "map entry_count es = map (\<lambda>(k, rows). length rows) (g # gs)"
    unfolding es gp using ih3 i(2,3) by simp
  from c1 c2 c3 show ?case by (intro conjI)
qed

lemma rest_no_writes:
  "writes (snd (bind (print env msg) (\<lambda>_. send_slack_message env m))) = []"
proof -
  obtain r t where "send_slack_message env m = (r, Notify m # t)" "writes t = []"
    using send_shape by blast
  then show ?thesis
    by (simp add: snd_bind print_obs writes_append split: sum.splits)
qed

lemma main_index:
  assumes "read_csv env = Inr df" and "index_written (snd (main env)) \<noteq> []"
  shows "\<exists>es t. process_groups env (groupby_Country df) = (Inr es, t)
     \<and> index_written (snd (main env)) = [es]
     \<and> records_written (snd (main env)) = records_written t"
proof -
  let ?rest = "\<lambda>es. bind (print env (''\<newline>'' @ rocket
                  @ '' All Done! Index file created at contributors/index.json''))
                (\<lambda>_. send_slack_message env (summary_msg es))"
  have rest: "records_written (snd (?rest es)) = []" "index_written (snd (?rest es)) = []" for es
    using rest_no_writes by (simp_all add: writes_Nil_records writes_Nil_index)
  obtain r t where pg: "process_groups env (groupby_Country df) = (r, t)"
    by (cases "process_groups env (groupby_Country df)")
  have it: "index_written t = []" using process_groups_index [of env "groupby_Country df"] pg by simp
  from assms(1) have m: "main env =
      bind (os_makedirs env ''contributors'') (\<lambda>_.
      bind (process_groups env (groupby_Country df)) (\<lambda>index_data.
      bind (json_dump env ''contributors/index.json'' (Index index_data)) (\<lambda>_.
      ?rest index_data)))"
    by (simp add: main_def)
  show ?thesis
  proof (cases r)
    case (Inl e)
    with pg it have "index_written (snd (main env)) = []"
      unfolding m by (simp add: snd_bind act_defs split: option.splits sum.splits)
    with assms(2) show ?thesis by simp
  next
    case (Inr es)
    show ?thesis
    proof (cases "makedirs env ''contributors'' = None \<and> open_write env ''contributors/index.json'' = None")
      case False
      with pg it Inr have "index_written (snd (main env)) = []"
        unfolding m
        by (auto simp: snd_bind fst_bind act_defs index_written_append split: option.splits sum.splits)
      with assms(2) show ?thesis by simp
    next
      case True
      with pg Inr have s: "snd (main env) =
          Makedirs ''contributors'' # t @ [Write ''contributors/index.json'' (Index es)]
          @ snd (?rest es)"
        unfolding m by (simp add: snd_bind fst_bind act_defs)
      from it rest have "index_written (snd (main env)) = [es]"
        unfolding s by (simp add: index_written_append)
      moreover from rest have "records_written (snd (main env)) = records_written t"
        unfolding s by (simp add: records_written_append)
      ultimately show ?thesis using pg Inr by simp
    qed
  qed
qed

text \<open>
  Claim C6, for the runs in which the index is written (a failure to create the
  directory, to open a file or to print ends the run before that). The entries of the
  index are, in order, those of the groups processed: the count of each entry is the
  length of the record list written for its group (at the entry's own path), which is
  the number of rows of that group.
\<close>

theorem index_count_matches_records:
  "read_csv env = Inr df \<and> index_written (snd (main env)) \<noteq> [] \<longrightarrow>
     (\<exists>es. index_written (snd (main env)) = [es]
        \<and> map entry_path es = map fst (records_written (snd (main env)))
        \<and> map entry_count es = map (\<lambda>(p, its). length its) (records_written (snd (main env)))
        \<and> map entry_count es = map (\<lambda>(k, rows). length rows) (groupby_Country df))"
proof
  assume a: "read_csv env = Inr df \<and> index_written (snd (main env)) \<noteq> []"
  then obtain es t where p: "process_groups env (groupby_Country df) = (Inr es, t)"
     and i: "index_written (snd (main env)) = [es]"
     and r: "records_written (snd (main env)) = records_written t"
    using main_index [of env df] by blast
  from process_groups_Inr [OF p]
  have c1: "map entry_path es = map fst (records_written t)"
    and c2: "map entry_count es = map (\<lambda>(p, its). length its) (records_written t)"
    and c3: "map entry_count es = map (\<lambda>(k, rows). length rows) (groupby_Country df)"
    by blast+
  from i c1 c2 c3
  show "\<exists>es. index_written (snd (main env)) = [es]
        \<and> map entry_path es = map fst (records_written (snd (main env)))
        \<and> map entry_count es = map (\<lambda>(p, its). length its) (records_written (snd (main env)))
        \<and> map entry_count es = map (\<lambda>(k, rows). length rows) (groupby_Country df)"
    unfolding r by blast
qed

lemma groupby_sample:
  "groupby_Country sample_sheet =
     [(''South Korea'', [sample_row ''South Korea'' ''tech - software'' ''a, b,c'']),
      (''Wonderland'', [sample_row ''Wonderland'' '''' '''',
                        sample_row ''Wonderland'' ''arts'' ''a,,b''])]"
  by (simp add: groupby_Country_def sample_sheet_def sample_row_def)

lemma hooked_env_fields:
  "read_csv (hooked_env status) = Inr sample_sheet"
  "makedirs (hooked_env status) p = None"
  "open_write (hooked_env status) p = None"
  "stdout_write (hooked_env status) p = None"
  by (simp_all add: hooked_env_def sample_env_def)

lemma main_sample_index: "index_written (snd (main (hooked_env status))) \<noteq> []"
proof -
  let ?env = "hooked_env status"
  have pg: "\<exists>e t. process_group ?env (name, rows) = (Inr e, t)" for name rows
  proof -
    obtain c f' t where g: "get_country_info ?env name = (Inr (c, f', flag_of c), t)"
      using gci_returns [OF sample_env_ok(5,6)] by blast
    obtain its where "build_items ?env c 0 rows = Inr its"
      using build_items_Inr by blast
    with g show ?thesis by (simp add: process_group_eq hooked_env_fields)
  qed
  have pgs: "\<exists>es t. process_groups ?env gs = (Inr es, t)" for gs
  proof (induction gs)
    case Nil
    then show ?case by (simp add: return_def)
  next
    case (Cons g gs)
    obtain name rows where "g = (name, rows)" by (cases g)
    with pg obtain e t where "process_group ?env g = (Inr e, t)" by blast
    with Cons show ?case by (auto simp: io_defs)
  qed
  obtain es t where "process_groups ?env (groupby_Country sample_sheet) = (Inr es, t)"
    using pgs by blast
  then show ?thesis
    by (simp add: main_def snd_bind fst_bind act_defs hooked_env_fields index_written_append)
qed

text \<open>
  The theorem on the sample sheet: one row for South Korea, two for Wonderland.
\<close>

theorem index_count_matches_records_witness:
  "read_csv (hooked_env 200) = Inr sample_sheet
   \<and> index_written (snd (main (hooked_env 200))) \<noteq> []
   \<and> (\<exists>es. index_written (snd (main (hooked_env 200))) = [es]
        \<and> map entry_count es = [1, 2]
        \<and> map (\<lambda>(p, its). length its) (records_written (snd (main (hooked_env 200)))) = [1, 2])"
  using index_count_matches_records [of "hooked_env 200" sample_sheet]
    main_sample_index [of 200]
  by (auto simp: groupby_sample hooked_env_fields)

section \<open>The notifier: claims\<close>















end
